theory Spec2Isabelle
  imports Complex_Main
begin

section \<open>B-spline basis expansion: the knot vector builder and the Cox--de Boor evaluator\<close>

text \<open>
  The development embeds \<^verbatim>\<open>posts/cubic_splines/general_spline_impl.py\<close> (class
  \<^verbatim>\<open>BSpline\<close>: \<^verbatim>\<open>fit\<close>, \<^verbatim>\<open>transform\<close>, \<^verbatim>\<open>_bspline_basis\<close>).

  Numbers. The program computes in IEEE double precision; the embedding computes in the
  ordered field \<^typ>\<open>real\<close>. Every comparison, guard and index computation of the source
  is kept as written, so all statements about control flow, indices, shapes and the zero
  guards are statements about the code; statements about sums and signs are statements
  about the arithmetic the code performs, read over the reals (no rounding, no NaN, no
  infinity). Python integers are \<^typ>\<open>int\<close>; array positions that the source obtains
  from \<^verbatim>\<open>range\<close> are \<^typ>\<open>nat\<close>.

  Failure. Every exception the source or a numpy routine can raise is a value \<open>Inl e\<close>
  of type \<open>error + 'a\<close>; every array access goes through a checked read or write, so a
  result \<open>Inr v\<close> certifies that no access left the bounds of its array.
\<close>

subsection \<open>Exceptions\<close>

datatype error = ValueError | IndexError | AttributeError

definition try_bind :: "error + 'a \<Rightarrow> ('a \<Rightarrow> error + 'b) \<Rightarrow> error + 'b" where
  "try_bind m f = (case m of Inl e \<Rightarrow> Inl e | Inr v \<Rightarrow> f v)"

subsection \<open>Arrays and the numpy routines the program calls\<close>

text \<open>
  Python subscripting \<^verbatim>\<open>a[i]\<close> of a one-dimensional array: a negative index counts from
  the end, and an index outside \<open>[-len, len)\<close> raises \<^verbatim>\<open>IndexError\<close>.
\<close>

definition getitem :: "real list \<Rightarrow> int \<Rightarrow> error + real" where
  "getitem a i =
     (let n = int (length a); j = (if i < 0 then n + i else i)
      in if 0 \<le> j \<and> j < n then Inr (a ! nat j) else Inl IndexError)"

definition setitem :: "real list \<Rightarrow> int \<Rightarrow> real \<Rightarrow> error + real list" where
  "setitem a i v =
     (let n = int (length a); j = (if i < 0 then n + i else i)
      in if 0 \<le> j \<and> j < n then Inr (a[nat j := v]) else Inl IndexError)"

text \<open>The augmented assignment \<^verbatim>\<open>a[i] += v\<close>: a read of \<^verbatim>\<open>a[i]\<close> and a write back.\<close>

definition iadd_item :: "real list \<Rightarrow> int \<Rightarrow> real \<Rightarrow> error + real list" where
  "iadd_item a i v = try_bind (getitem a i) (\<lambda>old. setitem a i (old + v))"

text \<open>\<^verbatim>\<open>np.zeros(n)\<close> raises \<^verbatim>\<open>ValueError\<close> for a negative dimension.\<close>

definition np_zeros :: "int \<Rightarrow> error + real list" where
  "np_zeros n = (if n < 0 then Inl ValueError else Inr (replicate (nat n) 0))"

text \<open>\<^verbatim>\<open>np.repeat(v, k)\<close> raises \<^verbatim>\<open>ValueError\<close> for a negative count.\<close>

definition np_repeat :: "real \<Rightarrow> int \<Rightarrow> error + real list" where
  "np_repeat v k = (if k < 0 then Inl ValueError else Inr (replicate (nat k) v))"

text \<open>
  \<^verbatim>\<open>np.searchsorted(a, v, side='right')\<close> for a single key \<open>v\<close> is a bisection of the
  index range \<open>[0, len(a))\<close>: the middle entry is compared with the key, the lower bound
  moves past the middle when the entry is \<open>\<le> v\<close>, the upper bound moves onto it
  otherwise, and the lower bound is returned when the range is empty. On an ascending
  array this is the index of the first entry strictly greater than \<open>v\<close> (\<open>len(a)\<close> when
  there is none); on any other array it is whatever the bisection reaches. Every middle
  index lies below the upper bound, so no read leaves the array.
\<close>

function bisect_right :: "real list \<Rightarrow> real \<Rightarrow> nat \<Rightarrow> nat \<Rightarrow> nat" where
  "bisect_right a v min_idx max_idx =
     (if min_idx < max_idx then
        let mid_idx = min_idx + (max_idx - min_idx) div 2
        in if a ! mid_idx \<le> v then bisect_right a v (mid_idx + 1) max_idx
           else bisect_right a v min_idx mid_idx
      else min_idx)"
  by pat_completeness auto
termination
  by (relation "measure (\<lambda>(a, v, min_idx, max_idx). max_idx - min_idx)") auto

declare bisect_right.simps [simp del]

definition searchsorted_right :: "real list \<Rightarrow> real \<Rightarrow> nat" where
  "searchsorted_right a v = bisect_right a v 0 (length a)"

text \<open>
  \<^verbatim>\<open>np.linspace(start, stop, num)\<close>: \<open>num\<close> equally spaced samples with both end points;
  a negative \<open>num\<close> raises \<^verbatim>\<open>ValueError\<close>, and \<open>num = 1\<close> gives the start alone.
\<close>

definition np_linspace :: "real \<Rightarrow> real \<Rightarrow> int \<Rightarrow> error + real list" where
  "np_linspace start stop num =
     (if num < 0 then Inl ValueError
      else Inr (map (\<lambda>i. start + real i * ((stop - start) / (real_of_int num - 1)))
                    [0..<nat num]))"

text \<open>
  \<^verbatim>\<open>np.quantile(a, q)\<close> with the default method (linear interpolation between order
  statistics): for a sample of \<open>n\<close> values in ascending order the quantile at probability
  \<open>p\<close> sits at the virtual position \<open>p\<cdot>(n-1)\<close> and interpolates between the two
  neighbouring order statistics. A probability outside \<open>[0, 1]\<close> raises
  \<^verbatim>\<open>ValueError\<close>; on an empty sample the routine fails when it reads the last order
  statistic (\<^verbatim>\<open>IndexError\<close>).
\<close>

definition quantile_at :: "real list \<Rightarrow> real \<Rightarrow> real" where
  "quantile_at srt p =
     (let n = length srt;
          h = p * (real n - 1);
          lo = nat \<lfloor>h\<rfloor>;
          hi = min (lo + 1) (n - 1)
      in srt ! lo + (h - real lo) * (srt ! hi - srt ! lo))"

definition np_quantile :: "real list \<Rightarrow> real list \<Rightarrow> error + real list" where
  "np_quantile a q =
     (if \<exists>p \<in> set q. p < 0 \<or> 1 < p then Inl ValueError
      else if a = [] then Inl IndexError
      else Inr (map (quantile_at (sort a)) q))"

text \<open>\<^verbatim>\<open>a.min()\<close> and \<^verbatim>\<open>a.max()\<close> raise \<^verbatim>\<open>ValueError\<close> on an empty array.\<close>

definition np_min :: "real list \<Rightarrow> error + real" where
  "np_min a = (if a = [] then Inl ValueError else Inr (Min (set a)))"

definition np_max :: "real list \<Rightarrow> error + real" where
  "np_max a = (if a = [] then Inl ValueError else Inr (Max (set a)))"

text \<open>
  An n-dimensional array as the program sees it: its shape and its entries in row-major
  order (what \<^verbatim>\<open>ravel()\<close> returns).
\<close>

record ndarray =
  shape :: "nat list"
  ravel :: "real list"

text \<open>The two-dimensional result of \<^verbatim>\<open>transform\<close>: its shape and its rows.\<close>

record matrix =
  nrows :: nat
  ncols :: nat
  rows :: "real list list"

definition np_zeros2 :: "nat \<Rightarrow> int \<Rightarrow> error + matrix" where
  "np_zeros2 m n =
     (if n < 0 then Inl ValueError
      else Inr \<lparr>nrows = m, ncols = nat n, rows = replicate m (replicate (nat n) 0)\<rparr>)"

text \<open>
  \<^verbatim>\<open>basis[i, :] = row\<close>: the row must have as many entries as the matrix has columns, or
  a single entry, which numpy broadcasts; any other length raises \<^verbatim>\<open>ValueError\<close>.
\<close>

definition set_row :: "matrix \<Rightarrow> nat \<Rightarrow> real list \<Rightarrow> error + matrix" where
  "set_row M i r =
     (if nrows M \<le> i then Inl IndexError
      else if length r = ncols M then Inr (M\<lparr>rows := (rows M)[i := r]\<rparr>)
      else if length r = 1 then Inr (M\<lparr>rows := (rows M)[i := replicate (ncols M) (r ! 0)]\<rparr>)
      else Inl ValueError)"

text \<open>\<^verbatim>\<open>basis[:, 1:]\<close>: every row without its first entry.\<close>

definition drop_first_column :: "matrix \<Rightarrow> matrix" where
  "drop_first_column M = M\<lparr>ncols := ncols M - 1, rows := map tl (rows M)\<rparr>"

subsection \<open>The evaluator \<^verbatim>\<open>_bspline_basis\<close>\<close>

text \<open>
  Lines 169--174: the knot span. The right boundary is a case of its own; every other
  point is searched for and the result clamped with \<^verbatim>\<open>max(degree, min(span, n_bases - 1))\<close>.
\<close>

definition find_span :: "real \<Rightarrow> int \<Rightarrow> real list \<Rightarrow> int \<Rightarrow> error + int" where
  "find_span x degree knots n_bases =
     try_bind (getitem knots (- 1)) (\<lambda>last_knot.
       if x = last_knot then Inr (n_bases - 1)
       else
         let span_i = int (searchsorted_right knots x) - 1
         in Inr (max degree (min span_i (n_bases - 1))))"

text \<open>Lines 177--179: the degree-0 vector, written only under the guard \<^verbatim>\<open>span < n_bases\<close>.\<close>

definition init_basis_prev :: "int \<Rightarrow> int \<Rightarrow> error + real list" where
  "init_basis_prev span_i n_bases =
     try_bind (np_zeros n_bases) (\<lambda>basis_prev.
       if span_i < n_bases then setitem basis_prev span_i 1 else Inr basis_prev)"

text \<open>Lines 187--190: the left term of the recursion, added into \<^verbatim>\<open>basis_curr[i]\<close>.\<close>

definition left_term ::
  "real \<Rightarrow> real list \<Rightarrow> nat \<Rightarrow> real list \<Rightarrow> nat \<Rightarrow> real list \<Rightarrow> error + real list" where
  "left_term x knots d basis_prev i basis_curr =
     try_bind (getitem basis_prev (int i)) (\<lambda>p.
       if p \<noteq> 0 then
         try_bind (getitem knots (int i + int d)) (\<lambda>a.
         try_bind (getitem knots (int i)) (\<lambda>b.
           let denom = a - b
           in if denom \<noteq> 0 then iadd_item basis_curr (int i) ((x - b) / denom * p)
              else Inr basis_curr))
       else Inr basis_curr)"

text \<open>
  Lines 193--196: the right term. Python's \<^verbatim>\<open>and\<close> evaluates \<^verbatim>\<open>basis_prev[i + 1]\<close>
  only when \<^verbatim>\<open>i + 1 < n_bases\<close>.
\<close>

definition right_term ::
  "real \<Rightarrow> real list \<Rightarrow> nat \<Rightarrow> int \<Rightarrow> real list \<Rightarrow> nat \<Rightarrow> real list \<Rightarrow> error + real list" where
  "right_term x knots d n_bases basis_prev i basis_curr =
     (if int i + 1 < n_bases then
        try_bind (getitem basis_prev (int i + 1)) (\<lambda>q.
          if q \<noteq> 0 then
            try_bind (getitem knots (int i + int d + 1)) (\<lambda>a.
            try_bind (getitem knots (int i + 1)) (\<lambda>b.
              let denom = a - b
              in if denom \<noteq> 0 then iadd_item basis_curr (int i) ((a - x) / denom * q)
                 else Inr basis_curr))
          else Inr basis_curr)
      else Inr basis_curr)"

text \<open>Lines 185--196: the loop \<^verbatim>\<open>for i in range(n_bases)\<close> over the positions still to visit.\<close>

fun inner_loop ::
  "real \<Rightarrow> real list \<Rightarrow> nat \<Rightarrow> int \<Rightarrow> real list \<Rightarrow> nat list \<Rightarrow> real list \<Rightarrow> error + real list" where
  "inner_loop x knots d n_bases basis_prev [] basis_curr = Inr basis_curr"
| "inner_loop x knots d n_bases basis_prev (i # rest) basis_curr =
     try_bind (left_term x knots d basis_prev i basis_curr) (\<lambda>c1.
     try_bind (right_term x knots d n_bases basis_prev i c1) (\<lambda>c2.
       inner_loop x knots d n_bases basis_prev rest c2))"

text \<open>
  Lines 182--198: the loop \<^verbatim>\<open>for d in range(1, degree + 1)\<close> over the levels still to
  compute; each level starts from a fresh zero vector and replaces \<^verbatim>\<open>basis_prev\<close>.
\<close>

fun outer_loop ::
  "real \<Rightarrow> real list \<Rightarrow> int \<Rightarrow> nat list \<Rightarrow> real list \<Rightarrow> error + real list" where
  "outer_loop x knots n_bases [] basis_prev = Inr basis_prev"
| "outer_loop x knots n_bases (d # rest) basis_prev =
     try_bind (np_zeros n_bases) (\<lambda>basis_curr.
     try_bind (inner_loop x knots d n_bases basis_prev [0..<nat n_bases] basis_curr) (\<lambda>c.
       outer_loop x knots n_bases rest c))"

definition bspline_basis :: "real \<Rightarrow> int \<Rightarrow> real list \<Rightarrow> error + real list" where
  "bspline_basis x degree knots =
     (let n_bases = int (length knots) - degree - 1
      in try_bind (np_zeros n_bases) (\<lambda>basis.
         try_bind (find_span x degree knots n_bases) (\<lambda>span_i.
         try_bind (init_basis_prev span_i n_bases) (\<lambda>basis_prev.
           outer_loop x knots n_bases [1..<nat (degree + 1)] basis_prev))))"

subsection \<open>The recursion as the specification words it\<close>

text \<open>
  \<open>L = 0\<close> if \<open>prev[i] = 0\<close> or the denominator is zero, otherwise
  \<open>(x - knots[i]) / (knots[i+d] - knots[i]) \<cdot> prev[i]\<close>; \<open>R = 0\<close> if \<open>i+1 \<ge> n_bases\<close>,
  \<open>prev[i+1] = 0\<close> or the denominator is zero, otherwise
  \<open>(knots[i+d+1] - x) / (knots[i+d+1] - knots[i+1]) \<cdot> prev[i+1]\<close>; \<open>curr[i] = L + R\<close>.
\<close>

definition spec_L :: "real \<Rightarrow> real list \<Rightarrow> nat \<Rightarrow> real list \<Rightarrow> nat \<Rightarrow> real" where
  "spec_L x knots d prev i =
     (if prev ! i = 0 \<or> knots ! (i + d) - knots ! i = 0 then 0
      else (x - knots ! i) / (knots ! (i + d) - knots ! i) * prev ! i)"

definition spec_R :: "real \<Rightarrow> real list \<Rightarrow> nat \<Rightarrow> nat \<Rightarrow> real list \<Rightarrow> nat \<Rightarrow> real" where
  "spec_R x knots d n prev i =
     (if n \<le> i + 1 \<or> prev ! (i + 1) = 0 \<or> knots ! (i + d + 1) - knots ! (i + 1) = 0 then 0
      else (knots ! (i + d + 1) - x) / (knots ! (i + d + 1) - knots ! (i + 1)) * prev ! (i + 1))"

definition spec_level :: "real \<Rightarrow> real list \<Rightarrow> nat \<Rightarrow> nat \<Rightarrow> real list \<Rightarrow> real list" where
  "spec_level x knots n d prev = map (\<lambda>i. spec_L x knots d prev i + spec_R x knots d n prev i) [0..<n]"

definition spec_levels :: "real \<Rightarrow> real list \<Rightarrow> nat \<Rightarrow> nat list \<Rightarrow> real list \<Rightarrow> real list" where
  "spec_levels x knots n ds prev = foldl (\<lambda>p d. spec_level x knots n d p) prev ds"

subsection \<open>The transformer object, \<^verbatim>\<open>fit\<close> and \<^verbatim>\<open>transform\<close>\<close>

text \<open>
  The attributes of a \<^verbatim>\<open>BSpline\<close> instance. \<^verbatim>\<open>knots_\<close> and \<^verbatim>\<open>n_bases_\<close> exist only
  after \<^verbatim>\<open>fit\<close>; they are \<open>knots_fitted\<close> and \<open>n_bases_fitted\<close> here, \<open>None\<close> while the
  attribute is absent.
\<close>

record bspline =
  degree :: int
  n_knots :: int
  knots :: "real list option"
  include_bias :: bool
  knots_fitted :: "real list option"
  n_bases_fitted :: "int option"

text \<open>\<^verbatim>\<open>__init__\<close>: the four parameters are stored; nothing is fitted.\<close>

definition init :: "int \<Rightarrow> int \<Rightarrow> real list option \<Rightarrow> bool \<Rightarrow> bspline" where
  "init dg nk ks ib =
     \<lparr>degree = dg, n_knots = nk, knots = ks, include_bias = ib,
      knots_fitted = None, n_bases_fitted = None\<rparr>"

text \<open>Lines 72--74 and 126--128: a one-dimensional input becomes a single column.\<close>

definition ensure_2d :: "ndarray \<Rightarrow> ndarray" where
  "ensure_2d X = (if length (shape X) = 1 then X\<lparr>shape := [length (ravel X), 1]\<rparr> else X)"

text \<open>Lines 82--87: explicit knots verbatim, or the sample quantiles at the inner grid points.\<close>

definition interior_knots_of :: "bspline \<Rightarrow> real list \<Rightarrow> error + real list" where
  "interior_knots_of self X_flat =
     (case knots self of
        Some ks \<Rightarrow> Inr ks
      | None \<Rightarrow>
          try_bind (np_linspace 0 1 (n_knots self + 2)) (\<lambda>grid.
            np_quantile X_flat (butlast (tl grid))))"

definition fit :: "bspline \<Rightarrow> ndarray \<Rightarrow> error + bspline" where
  "fit self X0 =
     (let X = ensure_2d X0
      in if length (shape X) < 2 then Inl IndexError
         else if shape X ! 1 \<noteq> 1 then Inl ValueError
         else
           let X_flat = ravel X
           in try_bind (interior_knots_of self X_flat) (\<lambda>interior_knots.
              try_bind (np_min X_flat) (\<lambda>x_min0.
              try_bind (np_max X_flat) (\<lambda>x_max0.
                let x_min = x_min0 - (1 / 10 ^ 10) * (x_max0 - x_min0);
                    x_max = x_max0 + (1 / 10 ^ 10) * (x_max0 - x_min)
                in try_bind (np_repeat x_min (degree self + 1)) (\<lambda>lo.
                   try_bind (np_repeat x_max (degree self + 1)) (\<lambda>hi.
                     let kn = lo @ interior_knots @ hi
                     in Inr (self\<lparr>knots_fitted := Some kn,
                                 n_bases_fitted := Some (int (length kn) - degree self - 1)\<rparr>)))))))"

text \<open>
  The two boundary values lines 91--95 compute from a non-empty sample: the minimum moved
  down and the maximum moved up by \<open>10\<^sup>-\<^sup>1\<^sup>0\<close> times the extent; the second pad is
  taken after the first assignment, so it sees the padded minimum.
\<close>

definition padded_min :: "real list \<Rightarrow> real" where
  "padded_min X_flat = Min (set X_flat) - (1 / 10 ^ 10) * (Max (set X_flat) - Min (set X_flat))"

definition padded_max :: "real list \<Rightarrow> real" where
  "padded_max X_flat = Max (set X_flat) + (1 / 10 ^ 10) * (Max (set X_flat) - padded_min X_flat)"

text \<open>Lines 136--138: the loop \<^verbatim>\<open>for i in range(n_samples)\<close> over the rows still to fill.\<close>

fun fill_rows :: "bspline \<Rightarrow> real list \<Rightarrow> nat list \<Rightarrow> matrix \<Rightarrow> error + matrix" where
  "fill_rows self X_flat [] basis = Inr basis"
| "fill_rows self X_flat (i # rest) basis =
     try_bind (getitem X_flat (int i)) (\<lambda>x.
       case knots_fitted self of
         None \<Rightarrow> Inl AttributeError
       | Some kn \<Rightarrow>
           try_bind (bspline_basis x (degree self) kn) (\<lambda>r.
           try_bind (set_row basis i r) (\<lambda>basis'.
             fill_rows self X_flat rest basis')))"

definition transform :: "bspline \<Rightarrow> ndarray \<Rightarrow> error + matrix" where
  "transform self X0 =
     (let X = ensure_2d X0;
          X_flat = ravel X;
          n_samples = length X_flat
      in case n_bases_fitted self of
           None \<Rightarrow> Inl AttributeError
         | Some nb \<Rightarrow>
             try_bind (np_zeros2 n_samples nb) (\<lambda>basis.
             try_bind (fill_rows self X_flat [0..<n_samples] basis) (\<lambda>filled.
               Inr (if \<not> include_bias self then drop_first_column filled else filled))))"

subsection \<open>Example inputs\<close>

text \<open>
  The knot vector of degree 1 over the data range \<open>[0, 10]\<close> with interior knots
  \<open>2, 4, 6, 8\<close>, and the all-equal knot vector that constant data produce.
\<close>

definition example_knots :: "real list" where
  "example_knots = [0, 0, 2, 4, 6, 8, 10, 10]"

definition constant_knots :: "real list" where
  "constant_knots = [3, 3, 3, 3, 3]"

section \<open>The checked evaluator computes the recursion\<close>

lemma getitem_nat: "i < length a \<Longrightarrow> getitem a (int i) = Inr (a ! i)"
  by (simp add: getitem_def)

lemma getitem_last: "a \<noteq> [] \<Longrightarrow> getitem a (- 1) = Inr (last a)"
  by (cases a rule: rev_cases) (simp_all add: getitem_def nat_add_distrib)

lemma setitem_nat: "i < length a \<Longrightarrow> setitem a (int i) v = Inr (a[i := v])"
  by (simp add: setitem_def)

lemma iadd_item_nat: "i < length a \<Longrightarrow> iadd_item a (int i) v = Inr (a[i := a ! i + v])"
  by (simp add: iadd_item_def try_bind_def getitem_nat setitem_nat)

lemma left_term_pure:
  assumes "i < length basis_prev" "i < length basis_curr" "i + d < length ks"
  shows "left_term x ks d basis_prev i basis_curr
         = Inr (basis_curr[i := basis_curr ! i + spec_L x ks d basis_prev i])"
proof -
  have g1: "getitem ks (int i + int d) = Inr (ks ! (i + d))"
    using assms by (simp add: getitem_def nat_add_distrib)
  have g2: "getitem ks (int i) = Inr (ks ! i)"
    using assms by (simp add: getitem_def)
  show ?thesis
    using assms
    by (simp add: left_term_def spec_L_def try_bind_def getitem_nat g1 g2 iadd_item_nat Let_def)
qed

lemma right_term_pure:
  assumes "i < length basis_curr" "length basis_prev = n" "n + d \<le> length ks"
  shows "right_term x ks d (int n) basis_prev i basis_curr
         = Inr (basis_curr[i := basis_curr ! i + spec_R x ks d n basis_prev i])"
proof (cases "i + 1 < n")
  case True
  have g0: "getitem basis_prev (int i + 1) = Inr (basis_prev ! (i + 1))"
    using assms True by (simp add: getitem_def nat_add_distrib)
  have g1: "getitem ks (int i + int d + 1) = Inr (ks ! (i + d + 1))"
    using assms True by (simp add: getitem_def nat_add_distrib)
  have g2: "getitem ks (int i + 1) = Inr (ks ! (i + 1))"
    using assms True by (simp add: getitem_def nat_add_distrib)
  show ?thesis
    using assms True
    by (simp add: right_term_def spec_R_def try_bind_def g0 g1 g2 iadd_item_nat Let_def)
next
  case False
  then show ?thesis
    by (simp add: right_term_def spec_R_def)
qed

lemma fold_add_at:
  "distinct js \<Longrightarrow> \<forall>j \<in> set js. j < length c \<Longrightarrow>
   fold (\<lambda>i a. a[i := a ! i + f i]) js c
   = map (\<lambda>j. if j \<in> set js then c ! j + f j else c ! j) [0..<length c]"
proof (induction js arbitrary: c)
  case Nil
  then show ?case by (simp add: map_nth)
next
  case (Cons i js)
  have "fold (\<lambda>i a. a[i := a ! i + f i]) (i # js) c
        = fold (\<lambda>i a. a[i := a ! i + f i]) js (c[i := c ! i + f i])"
    by simp
  also have "\<dots> = map (\<lambda>j. if j \<in> set js then (c[i := c ! i + f i]) ! j + f j
                              else (c[i := c ! i + f i]) ! j) [0..<length c]"
    using Cons.IH [of "c[i := c ! i + f i]"] Cons.prems by simp
  also have "\<dots> = map (\<lambda>j. if j \<in> set (i # js) then c ! j + f j else c ! j) [0..<length c]"
    using Cons.prems by (auto simp: nth_list_update)
  finally show ?case .
qed

lemma inner_loop_fold:
  assumes "length basis_prev = n" "n + d \<le> length ks"
  shows "\<forall>i \<in> set js. i < n \<Longrightarrow> length c = n \<Longrightarrow>
         inner_loop x ks d (int n) basis_prev js c
         = Inr (fold (\<lambda>i a. a[i := a ! i + (spec_L x ks d basis_prev i + spec_R x ks d n basis_prev i)]) js c)"
proof (induction js arbitrary: c)
  case Nil
  then show ?case by simp
next
  case (Cons i js)
  have i: "i < n" using Cons.prems by simp
  have l: "left_term x ks d basis_prev i c = Inr (c[i := c ! i + spec_L x ks d basis_prev i])"
    using left_term_pure [of i basis_prev c d ks x] assms i Cons.prems by simp
  have r: "right_term x ks d (int n) basis_prev i (c[i := c ! i + spec_L x ks d basis_prev i])
           = Inr (c[i := c ! i + (spec_L x ks d basis_prev i + spec_R x ks d n basis_prev i)])"
    using right_term_pure [of i "c[i := c ! i + spec_L x ks d basis_prev i]" basis_prev n d ks x]
      assms i Cons.prems by (simp add: add.assoc)
  show ?case
    using Cons.IH [of "c[i := c ! i + (spec_L x ks d basis_prev i + spec_R x ks d n basis_prev i)]"]
      Cons.prems
    by (simp add: l r try_bind_def)
qed

lemma inner_loop_pure:
  assumes "length basis_prev = n" "n + d \<le> length ks"
  shows "inner_loop x ks d (int n) basis_prev [0..<n] (replicate n 0)
         = Inr (spec_level x ks n d basis_prev)"
proof -
  have "inner_loop x ks d (int n) basis_prev [0..<n] (replicate n 0)
        = Inr (fold (\<lambda>i a. a[i := a ! i + (spec_L x ks d basis_prev i + spec_R x ks d n basis_prev i)])
                 [0..<n] (replicate n 0))"
    using inner_loop_fold [OF assms, of "[0..<n]" "replicate n 0" x] by simp
  also have "fold (\<lambda>i a. a[i := a ! i + (spec_L x ks d basis_prev i + spec_R x ks d n basis_prev i)])
                 [0..<n] (replicate n 0) = spec_level x ks n d basis_prev"
    using fold_add_at [of "[0..<n]" "replicate n 0"
        "\<lambda>i. spec_L x ks d basis_prev i + spec_R x ks d n basis_prev i"]
    by (simp add: spec_level_def)
  finally show ?thesis .
qed

lemma length_spec_level: "length (spec_level x ks n d p) = n"
  by (simp add: spec_level_def)

lemma length_spec_levels: "length p = n \<Longrightarrow> length (spec_levels x ks n ds p) = n"
  unfolding spec_levels_def
  by (induction ds arbitrary: p) (simp_all add: length_spec_level)

lemma outer_loop_pure:
  "length basis_prev = n \<Longrightarrow> \<forall>d \<in> set ds. n + d \<le> length ks \<Longrightarrow>
   outer_loop x ks (int n) ds basis_prev = Inr (spec_levels x ks n ds basis_prev)"
proof (induction ds arbitrary: basis_prev)
  case Nil
  then show ?case by (simp add: spec_levels_def)
next
  case (Cons d ds)
  have "inner_loop x ks d (int n) basis_prev [0..<n] (replicate n 0)
        = Inr (spec_level x ks n d basis_prev)"
    using inner_loop_pure [of basis_prev n d ks x] Cons.prems by simp
  then show ?case
    using Cons.IH [of "spec_level x ks n d basis_prev"] Cons.prems
    by (simp add: np_zeros_def try_bind_def length_spec_level spec_levels_def)
qed


lemma find_span_value:
  "ks \<noteq> [] \<Longrightarrow> find_span x deg ks nb
     = Inr (if x = last ks then nb - 1
            else max deg (min (int (searchsorted_right ks x) - 1) (nb - 1)))"
  by (simp add: find_span_def getitem_last try_bind_def Let_def)

lemma spec_levels_snoc:
  "spec_levels x ks n (ds @ [d]) p = spec_level x ks n d (spec_levels x ks n ds p)"
  by (simp add: spec_levels_def)

lemma spec_level_nth:
  "i < n \<Longrightarrow> spec_level x ks n d p ! i = spec_L x ks d p i + spec_R x ks d n p i"
  by (simp add: spec_level_def)

lemma spec_level_nonzero:
  assumes "i < n" "spec_level x ks n d p ! i \<noteq> 0"
  shows "p ! i \<noteq> 0 \<or> (i + 1 < n \<and> p ! (i + 1) \<noteq> 0)"
proof (rule ccontr)
  assume "\<not> ?thesis"
  then have "spec_L x ks d p i = 0" "spec_R x ks d n p i = 0"
    by (auto simp: spec_L_def spec_R_def)
  then show False using assms by (simp add: spec_level_nth)
qed

lemma spec_levels_support:
  assumes "\<forall>j<n. p0 ! j \<noteq> 0 \<longrightarrow> j = s"
  shows "\<forall>j<n. spec_levels x ks n ds p0 ! j \<noteq> 0 \<longrightarrow> j \<le> s \<and> s \<le> j + length ds"
proof (induction ds rule: rev_induct)
  case Nil
  then show ?case using assms by (simp add: spec_levels_def)
next
  case (snoc d ds)
  show ?case
  proof (intro allI impI)
    fix j assume j: "j < n" and nz: "spec_levels x ks n (ds @ [d]) p0 ! j \<noteq> 0"
    let ?p = "spec_levels x ks n ds p0"
    from nz have "spec_level x ks n d ?p ! j \<noteq> 0" by (simp add: spec_levels_snoc)
    then have "?p ! j \<noteq> 0 \<or> (j + 1 < n \<and> ?p ! (j + 1) \<noteq> 0)"
      using spec_level_nonzero [OF j] by blast
    then show "j \<le> s \<and> s \<le> j + length (ds @ [d])"
      using snoc.IH j by fastforce
  qed
qed

lemma spec_levels_zero_outside:
  assumes "\<forall>j<n. p0 ! j = 0"
  shows "\<forall>j<n. spec_levels x ks n ds p0 ! j = 0"
proof (induction ds rule: rev_induct)
  case Nil
  then show ?case using assms by (simp add: spec_levels_def)
next
  case (snoc d ds)
  show ?case
  proof (intro allI impI)
    fix j assume j: "j < n"
    let ?p = "spec_levels x ks n ds p0"
    have "spec_level x ks n d ?p ! j = 0"
    proof (rule ccontr)
      assume "spec_level x ks n d ?p ! j \<noteq> 0"
      then have "?p ! j \<noteq> 0 \<or> (j + 1 < n \<and> ?p ! (j + 1) \<noteq> 0)"
        using spec_level_nonzero [OF j] by blast
      then show False using snoc.IH j by auto
    qed
    then show "spec_levels x ks n (ds @ [d]) p0 ! j = 0" by (simp add: spec_levels_snoc)
  qed
qed

lemma bspline_basis_pure:
  assumes "0 \<le> deg" "deg + 2 \<le> int (length ks)"
  defines "n \<equiv> nat (int (length ks) - deg - 1)"
  shows "\<exists>s. find_span x deg ks (int (length ks) - deg - 1) = Inr (int s) \<and>
             bspline_basis x deg ks
             = Inr (spec_levels x ks n [1..<nat (deg + 1)]
                      (if s < n then (replicate n 0)[s := 1] else replicate n 0))"
proof -
  have n: "int n = int (length ks) - deg - 1" "1 \<le> n" using assms by auto
  have ne: "ks \<noteq> []" using assms by auto
  define si where "si = (if x = last ks then int n - 1
            else max deg (min (int (searchsorted_right ks x) - 1) (int n - 1)))"
  have fs: "find_span x deg ks (int n) = Inr si"
    using find_span_value [OF ne] by (simp add: si_def)
  have "0 \<le> si" using n assms(1) by (auto simp: si_def)
  then obtain s where s: "si = int s" using nonneg_int_cases by blast
  define p0 :: "real list" where "p0 = (if s < n then (replicate n 0)[s := 1] else replicate n 0)"
  have ini: "init_basis_prev (int s) (int n) = Inr p0"
    by (simp add: p0_def init_basis_prev_def np_zeros_def try_bind_def setitem_nat)
  have lp: "length p0 = n" by (simp add: p0_def)
  have bound: "\<forall>d \<in> set [1..<nat (deg + 1)]. n + d \<le> length ks"
    using n assms(1) by auto
  have ol: "outer_loop x ks (int n) [1..<nat (deg + 1)] p0
            = Inr (spec_levels x ks n [1..<nat (deg + 1)] p0)"
    using outer_loop_pure [OF lp bound] by simp
  have nz: "np_zeros (int n) = Inr (replicate n 0)" by (simp add: np_zeros_def)
  have "bspline_basis x deg ks = Inr (spec_levels x ks n [1..<nat (deg + 1)] p0)"
    unfolding bspline_basis_def Let_def n(1) [symmetric]
    using ol by (simp add: fs s ini nz try_bind_def)
  then show ?thesis using fs s n(1) by (auto simp: p0_def)
qed


lemma bisect_right_range:
  "min_idx \<le> max_idx \<Longrightarrow>
   min_idx \<le> bisect_right a v min_idx max_idx \<and> bisect_right a v min_idx max_idx \<le> max_idx"
proof (induction a v min_idx max_idx rule: bisect_right.induct)
  case (1 a v min_idx max_idx)
  show ?case
  proof (cases "min_idx < max_idx")
    case False
    then have "bisect_right a v min_idx max_idx = min_idx"
      by (simp add: bisect_right.simps [of a v min_idx max_idx])
    then show ?thesis using "1.prems" by (simp only:) simp
  next
    case True
    define mid_idx where "mid_idx = min_idx + (max_idx - min_idx) div 2"
    have m: "min_idx \<le> mid_idx" "mid_idx < max_idx" using True by (simp_all add: mid_idx_def)
    show ?thesis
    proof (cases "a ! mid_idx \<le> v")
      case le: True
      have "mid_idx + 1 \<le> bisect_right a v (mid_idx + 1) max_idx \<and>
            bisect_right a v (mid_idx + 1) max_idx \<le> max_idx"
        using "1.IH"(1) [OF True mid_idx_def le] m by simp
      then show ?thesis
        using True le m by (simp add: bisect_right.simps [of a v min_idx max_idx] mid_idx_def [symmetric])
    next
      case gt: False
      have "min_idx \<le> bisect_right a v min_idx mid_idx \<and>
            bisect_right a v min_idx mid_idx \<le> mid_idx"
        using "1.IH"(2) [OF True mid_idx_def gt] m by simp
      then show ?thesis
        using True gt m by (simp add: bisect_right.simps [of a v min_idx max_idx] mid_idx_def [symmetric])
    qed
  qed
qed

lemma bisect_right_sorted:
  "sorted a \<Longrightarrow> min_idx \<le> max_idx \<Longrightarrow> max_idx \<le> length a \<Longrightarrow>
   \<forall>j<min_idx. a ! j \<le> v \<Longrightarrow> \<forall>j. max_idx \<le> j \<and> j < length a \<longrightarrow> v < a ! j \<Longrightarrow>
   (\<forall>j<bisect_right a v min_idx max_idx. a ! j \<le> v) \<and>
   (\<forall>j. bisect_right a v min_idx max_idx \<le> j \<and> j < length a \<longrightarrow> v < a ! j)"
proof (induction a v min_idx max_idx rule: bisect_right.induct)
  case (1 a v min_idx max_idx)
  show ?case
  proof (cases "min_idx < max_idx")
    case False
    then have "bisect_right a v min_idx max_idx = min_idx"
      by (simp add: bisect_right.simps [of a v min_idx max_idx])
    moreover have "max_idx = min_idx" using False "1.prems"(2) by simp
    ultimately show ?thesis using "1.prems"(4,5) by simp
  next
    case True
    define mid_idx where "mid_idx = min_idx + (max_idx - min_idx) div 2"
    have m: "min_idx \<le> mid_idx" "mid_idx < max_idx" using True by (simp_all add: mid_idx_def)
    then have ml: "mid_idx < length a" using "1.prems"(3) by simp
    show ?thesis
    proof (cases "a ! mid_idx \<le> v")
      case le: True
      have below: "\<forall>j<mid_idx + 1. a ! j \<le> v"
      proof (intro allI impI)
        fix j assume "j < mid_idx + 1"
        then have "a ! j \<le> a ! mid_idx" using "1.prems"(1) ml by (simp add: sorted_nth_mono)
        then show "a ! j \<le> v" using le by simp
      qed
      have e: "bisect_right a v min_idx max_idx = bisect_right a v (mid_idx + 1) max_idx"
        using True le by (simp add: bisect_right.simps [of a v min_idx max_idx] mid_idx_def [symmetric])
      show ?thesis
        unfolding e
        using "1.IH"(1) [OF True mid_idx_def le "1.prems"(1) _ "1.prems"(3) below "1.prems"(5)] m
        by simp
    next
      case gt: False
      have above: "\<forall>j. mid_idx \<le> j \<and> j < length a \<longrightarrow> v < a ! j"
      proof (intro allI impI)
        fix j assume "mid_idx \<le> j \<and> j < length a"
        then have "a ! mid_idx \<le> a ! j" using "1.prems"(1) by (simp add: sorted_nth_mono)
        then show "v < a ! j" using gt by simp
      qed
      have e: "bisect_right a v min_idx max_idx = bisect_right a v min_idx mid_idx"
        using True gt by (simp add: bisect_right.simps [of a v min_idx max_idx] mid_idx_def [symmetric])
      have ml': "mid_idx \<le> length a" using ml by simp
      show ?thesis
        unfolding e
        using "1.IH"(2) [OF True mid_idx_def gt "1.prems"(1) m(1) ml' "1.prems"(4) above]
        by simp
    qed
  qed
qed

lemma searchsorted_right_le: "searchsorted_right a v \<le> length a"
  using bisect_right_range [of 0 "length a" a v] by (simp add: searchsorted_right_def)

lemma searchsorted_right_before:
  "sorted a \<Longrightarrow> j < searchsorted_right a v \<Longrightarrow> a ! j \<le> v"
  using bisect_right_sorted [of a 0 "length a" v] by (simp add: searchsorted_right_def)

lemma searchsorted_right_at:
  "sorted a \<Longrightarrow> searchsorted_right a v < length a \<Longrightarrow> v < a ! searchsorted_right a v"
  using bisect_right_sorted [of a 0 "length a" v] by (simp add: searchsorted_right_def)

lemma searchsorted_right_sorted:
  assumes "sorted a" "j < length a" "a ! j \<le> v"
  shows "j < searchsorted_right a v"
proof (rule ccontr)
  assume "\<not> j < searchsorted_right a v"
  then have "searchsorted_right a v \<le> j \<and> j < length a" using assms(2) by simp
  then have "v < a ! j"
    using bisect_right_sorted [of a 0 "length a" v] assms(1) by (simp add: searchsorted_right_def)
  then show False using assms(3) by simp
qed

lemma span_in_domain:
  assumes srt: "sorted ks" and deg: "0 \<le> deg" and len: "2 * deg + 2 \<le> int (length ks)"
    and n: "n = nat (int (length ks) - deg - 1)"
    and lo: "ks ! nat deg \<le> x" and hi: "x \<le> ks ! n"
    and fs: "find_span x deg ks (int (length ks) - deg - 1) = Inr (int s)"
  shows "nat deg \<le> s \<and> s < n \<and> ks ! s \<le> x \<and> x \<le> ks ! (s + 1) \<and>
         (x < ks ! n \<or> ks ! (n - 1) < ks ! n \<longrightarrow> ks ! s < ks ! (s + 1)) \<and>
         (x \<noteq> last ks \<longrightarrow> x < ks ! n \<longrightarrow> x < ks ! (s + 1))"
proof -
  have nn: "int n = int (length ks) - deg - 1" "nat deg < n" "n < length ks"
    using n deg len by auto
  have ne: "ks \<noteq> []" using nn by auto
  let ?r = "searchsorted_right ks x"
  have sv: "int s = (if x = last ks then int n - 1
                     else max deg (min (int ?r - 1) (int n - 1)))"
    using fs find_span_value [OF ne, of x deg "int n"] nn(1) by simp
  have lastk: "last ks = ks ! (length ks - 1)" using ne by (simp add: last_conv_nth)
  have n_le_last: "ks ! n \<le> last ks"
    using srt nn lastk by (simp add: sorted_nth_mono)
  have r_gt: "nat deg < ?r"
    using searchsorted_right_sorted [OF srt _ lo] nn by simp
  show ?thesis
  proof (cases "x < ks ! n")
    case True
    then have xl: "x \<noteq> last ks" using n_le_last by auto
    have r_le: "?r \<le> n"
    proof (rule ccontr)
      assume "\<not> ?r \<le> n"
      then have "ks ! n \<le> x" using searchsorted_right_before [OF srt, of n x] by simp
      then show False using True by simp
    qed
    have s: "s = ?r - 1" using sv xl r_gt r_le nn deg by auto
    have r1: "s + 1 = ?r" using s r_gt by simp
    have a: "ks ! s \<le> x" using searchsorted_right_before [OF srt, of s x] s r_gt by simp
    have b: "x < ks ! (s + 1)"
      using searchsorted_right_at [OF srt, of x] r_le nn r1 by simp
    show ?thesis using s r_gt r_le a b by auto
  next
    case False
    then have xe: "x = ks ! n" using hi by simp
    have s: "s = n - 1"
    proof (cases "x = last ks")
      case True
      then show ?thesis using sv nn by auto
    next
      case False
      have "n < ?r" using searchsorted_right_sorted [OF srt nn(3)] xe by simp
      then show ?thesis using sv False nn deg by auto
    qed
    have s1: "s + 1 = n" using s nn by simp
    have a: "ks ! s \<le> x"
      using srt nn s xe by (simp add: sorted_nth_mono)
    show ?thesis using s s1 nn a xe by auto
  qed
qed






lemma one_hot_support: "\<forall>j<n. (replicate n (0::real))[s := 1] ! j \<noteq> 0 \<longrightarrow> j = s"
  by (cases "s < n") (auto simp: nth_list_update)

lemma sum_list_zeros: "sum_list (replicate n (0::real)) = 0"
  by (induction n) simp_all


lemma spec_levels_upto_support:
  "\<forall>j<n. spec_levels x ks n [1..<Suc k] ((replicate n 0)[s := 1]) ! j \<noteq> 0
          \<longrightarrow> j \<le> s \<and> s < j + Suc k"
  using spec_levels_support [OF one_hot_support, of n x ks "[1..<Suc k]" s]
  by auto



lemma spec_levels_card:
  "card {j. j < n \<and> spec_levels x ks n [1..<Suc k] ((replicate n 0)[s := 1]) ! j \<noteq> 0} \<le> Suc k"
proof -
  have "{j. j < n \<and> spec_levels x ks n [1..<Suc k] ((replicate n 0)[s := 1]) ! j \<noteq> 0}
        \<subseteq> {s - k..s}"
    using spec_levels_upto_support [of n x ks k s] by auto
  then have "card {j. j < n \<and> spec_levels x ks n [1..<Suc k] ((replicate n 0)[s := 1]) ! j \<noteq> 0}
             \<le> card {s - k..s}"
    by (rule card_mono [rotated]) (rule finite_atLeastAtMost)
  also have "card {s - k..s} \<le> Suc k" by simp
  finally show ?thesis .
qed




lemma bspline_basis_length:
  assumes "0 \<le> deg" "bspline_basis x deg ks = Inr row"
  shows "int (length row) = int (length ks) - deg - 1"
proof -
  let ?nb = "int (length ks) - deg - 1"
  have nb0: "0 \<le> ?nb"
    using assms(2) by (auto simp: bspline_basis_def np_zeros_def try_bind_def Let_def split: if_splits)
  show ?thesis
  proof (cases "?nb = 0")
    case True
    obtain sp where sp: "find_span x deg ks 0 = Inr sp"
      using assms(2) True
      by (auto simp: bspline_basis_def np_zeros_def try_bind_def Let_def split: sum.splits)
    have ol: "init_basis_prev sp 0 = Inr p \<Longrightarrow> p = []" for p
      by (auto simp: init_basis_prev_def np_zeros_def try_bind_def setitem_def Let_def split: if_splits)
    have bound: "\<forall>d \<in> set [1..<nat (deg + 1)]. 0 + d \<le> length ks"
      using True assms(1) by auto
    have "outer_loop x ks (int 0) [1..<nat (deg + 1)] [] = Inr (spec_levels x ks 0 [1..<nat (deg + 1)] [])"
      using outer_loop_pure [OF _ bound, of "[]" x] by simp
    then have "row = spec_levels x ks 0 [1..<nat (deg + 1)] []"
      using assms(2) True sp ol
      by (auto simp: bspline_basis_def np_zeros_def try_bind_def Let_def split: sum.splits)
    then show ?thesis using True by (simp add: length_spec_levels)
  next
    case False
    then have "deg + 2 \<le> int (length ks)" using nb0 by simp
    then show ?thesis
      using bspline_basis_pure [OF assms(1), of ks x] assms(2) nb0
      by (auto simp: length_spec_levels)
  qed
qed


section \<open>Claims about the evaluator\<close>

text \<open>
  Claim C4. On a non-empty, non-decreasing knot vector (the knot vectors of the data
  model; the search is a bisection, which finds the first greater knot only on such a
  vector) the span computation returns. With \<open>r\<close> the
  index of the first knot strictly greater than \<open>x\<close> (\<open>r\<close> is the length when there is
  none): when \<open>x\<close> differs from the last knot the span is \<open>r - 1\<close> clamped by
  \<open>max(degree, min(r - 1, n_bases - 1))\<close>, which lies in \<open>[degree, n_bases - 1]\<close> whenever
  that interval is not empty; when \<open>x\<close> equals the last knot the span is \<open>n_bases - 1\<close>,
  with no clamping.
\<close>

theorem span_search_and_clamp:
  assumes "ks \<noteq> []" and "sorted ks"
  shows "\<exists>sp r. find_span x deg ks (int (length ks) - deg - 1) = Inr sp \<and>
           r \<le> length ks \<and> (\<forall>j<r. ks ! j \<le> x) \<and> (r < length ks \<longrightarrow> x < ks ! r) \<and>
           (x = last ks \<longrightarrow> sp = int (length ks) - deg - 1 - 1) \<and>
           (x \<noteq> last ks \<longrightarrow>
              sp = max deg (min (int r - 1) (int (length ks) - deg - 1 - 1)) \<and>
              (deg \<le> int (length ks) - deg - 1 - 1 \<longrightarrow>
                 deg \<le> sp \<and> sp \<le> int (length ks) - deg - 1 - 1))"
proof -
  let ?r = "searchsorted_right ks x"
  have "?r \<le> length ks" by (rule searchsorted_right_le)
  moreover have "\<forall>j<?r. ks ! j \<le> x" using searchsorted_right_before [OF assms(2)] by blast
  moreover have "?r < length ks \<longrightarrow> x < ks ! ?r" using searchsorted_right_at [OF assms(2)] by blast
  ultimately show ?thesis
    using find_span_value [OF assms(1), of x deg "int (length ks) - deg - 1"]
    by (intro exI [of _ "if x = last ks then int (length ks) - deg - 1 - 1
            else max deg (min (int ?r - 1) (int (length ks) - deg - 1 - 1))"] exI [of _ ?r])
       auto
qed

theorem span_search_and_clamp_witness:
  "example_knots \<noteq> [] \<and> sorted example_knots \<and>
   (\<exists>sp. find_span 5 1 example_knots (int (length example_knots) - 1 - 1) = Inr sp \<and>
      1 \<le> sp \<and> sp \<le> 5)"
proof -
  have h: "example_knots \<noteq> []" by (simp add: example_knots_def)
  have s: "sorted example_knots" by (simp add: example_knots_def)
  have l: "length example_knots = 8" "last example_knots = 10"
    by (simp_all add: example_knots_def)
  show ?thesis
    using h s span_search_and_clamp [OF h s, of 5 1] by (auto simp: l)
qed


text \<open>
  Claim C3. With at least \<open>degree + 2\<close> knots: at every level \<open>d\<close> from 1 to the degree,
  and from every previous vector of length \<open>n_bases\<close>, one pass of the level loop returns
  a vector whose entry \<open>i\<close> is \<open>L + R\<close> as the specification words the two terms, for every
  \<open>i < n_bases\<close>; and the evaluator returns the vector of the last level, started from
  the degree-0 vector.
\<close>

theorem recursion_levels_as_specified:
  assumes "0 \<le> deg" and "deg + 2 \<le> int (length ks)"
    and "n = nat (int (length ks) - deg - 1)"
  shows "(\<forall>d p. 1 \<le> d \<and> int d \<le> deg \<and> length p = n \<longrightarrow>
            (\<exists>curr. outer_loop x ks (int n) [d] p = Inr curr \<and> length curr = n \<and>
               (\<forall>i<n. curr ! i = spec_L x ks d p i + spec_R x ks d n p i))) \<and>
         (\<exists>sp p0. find_span x deg ks (int n) = Inr sp \<and>
            init_basis_prev sp (int n) = Inr p0 \<and>
            bspline_basis x deg ks = Inr (spec_levels x ks n [1..<nat (deg + 1)] p0))"
proof (rule conjI)
  show "\<forall>d p. 1 \<le> d \<and> int d \<le> deg \<and> length p = n \<longrightarrow>
            (\<exists>curr. outer_loop x ks (int n) [d] p = Inr curr \<and> length curr = n \<and>
               (\<forall>i<n. curr ! i = spec_L x ks d p i + spec_R x ks d n p i))"
  proof (intro allI impI)
    fix d and p :: "real list" assume h: "1 \<le> d \<and> int d \<le> deg \<and> length p = n"
    then have b: "\<forall>e \<in> set [d]. n + e \<le> length ks" using assms by auto
    have "outer_loop x ks (int n) [d] p = Inr (spec_level x ks n d p)"
      using outer_loop_pure [OF _ b, of p x] h by (simp add: spec_levels_def)
    then show "\<exists>curr. outer_loop x ks (int n) [d] p = Inr curr \<and> length curr = n \<and>
               (\<forall>i<n. curr ! i = spec_L x ks d p i + spec_R x ks d n p i)"
      by (simp add: length_spec_level spec_level_nth)
  qed
next
  have nn: "int n = int (length ks) - deg - 1" using assms by simp
  obtain s where s: "find_span x deg ks (int n) = Inr (int s)"
    and b: "bspline_basis x deg ks
            = Inr (spec_levels x ks n [1..<nat (deg + 1)]
                     (if s < n then (replicate n 0)[s := 1] else replicate n 0))"
    using bspline_basis_pure [OF assms(1,2), of x] assms(3) nn by auto
  have "init_basis_prev (int s) (int n)
        = Inr (if s < n then (replicate n 0)[s := 1] else replicate n 0)"
    by (simp add: init_basis_prev_def np_zeros_def try_bind_def setitem_nat)
  then show "\<exists>sp p0. find_span x deg ks (int n) = Inr sp \<and>
            init_basis_prev sp (int n) = Inr p0 \<and>
            bspline_basis x deg ks = Inr (spec_levels x ks n [1..<nat (deg + 1)] p0)"
    using s b by blast
qed

theorem recursion_levels_as_specified_witness:
  "(0::int) \<le> 1 \<and> 1 + 2 \<le> int (length example_knots) \<and>
   (6::nat) = nat (int (length example_knots) - 1 - 1) \<and>
   (\<exists>curr. outer_loop 5 example_knots (int 6) [1] [0, 0, 0, 1, 0, 0] = Inr curr \<and>
      curr ! 2 = spec_L 5 example_knots 1 [0, 0, 0, 1, 0, 0] 2
                 + spec_R 5 example_knots 1 6 [0, 0, 0, 1, 0, 0] 2) \<and>
   spec_L 5 example_knots 1 [0, 0, 0, 1, 0, 0] 2 + spec_R 5 example_knots 1 6 [0, 0, 0, 1, 0, 0] 2 = 1 / 2 \<and>
   (\<exists>sp p0. find_span 5 1 example_knots (int 6) = Inr sp \<and>
      init_basis_prev sp (int 6) = Inr p0 \<and>
      bspline_basis 5 1 example_knots = Inr (spec_levels 5 example_knots 6 [1..<nat (1 + 1)] p0))"
proof -
  have h1: "(0::int) \<le> 1" by simp
  have h2: "1 + 2 \<le> int (length example_knots)" by (simp add: example_knots_def)
  have h3: "(6::nat) = nat (int (length example_knots) - 1 - 1)" by (simp add: example_knots_def)
  have v: "spec_L 5 example_knots 1 [0, 0, 0, 1, 0, 0] 2
           + spec_R 5 example_knots 1 6 [0, 0, 0, 1, 0, 0] 2 = 1 / 2"
    by (simp add: spec_L_def spec_R_def example_knots_def)
  note t = recursion_levels_as_specified [OF h1 h2 h3, of 5]
  from t have "\<exists>curr. outer_loop 5 example_knots (int 6) [1] [0, 0, 0, 1, 0, 0] = Inr curr \<and>
      length curr = 6 \<and>
      (\<forall>i<6. curr ! i = spec_L 5 example_knots 1 [0, 0, 0, 1, 0, 0] i
                 + spec_R 5 example_knots 1 6 [0, 0, 0, 1, 0, 0] i)"
    by simp
  then have a: "\<exists>curr. outer_loop 5 example_knots (int 6) [1] [0, 0, 0, 1, 0, 0] = Inr curr \<and>
      curr ! 2 = spec_L 5 example_knots 1 [0, 0, 0, 1, 0, 0] 2
                 + spec_R 5 example_knots 1 6 [0, 0, 0, 1, 0, 0] 2"
    by auto
  show ?thesis using h1 h2 h3 v a t by blast
qed

text \<open>
  Claim C9. With at least \<open>degree + 2\<close> knots, as every knot vector of the builder has,
  the evaluator returns a row of length \<open>n_bases\<close> at every real \<open>x\<close>: no read or write
  leaves its array. The located span is not negative, and the degree-0 write is safe at
  every span \<open>\<ge> -n_bases\<close>, in \<open>[0, n_bases)\<close> or not: the guard \<open>span < n_bases\<close>
  skips it at and above \<open>n_bases\<close>, and Python counts an index in \<open>[-n_bases, 0)\<close> from
  the end.
\<close>

theorem evaluator_stays_in_bounds:
  assumes "0 \<le> deg" and "deg + 2 \<le> int (length ks)"
  shows "\<exists>row sp. bspline_basis x deg ks = Inr row \<and>
           int (length row) = int (length ks) - deg - 1 \<and>
           find_span x deg ks (int (length ks) - deg - 1) = Inr sp \<and> 0 \<le> sp \<and>
           (\<forall>sp'. deg + 1 - int (length ks) \<le> sp' \<longrightarrow>
              (\<exists>p. init_basis_prev sp' (int (length ks) - deg - 1) = Inr p))"
proof -
  let ?nb = "int (length ks) - deg - 1"
  obtain s row where s: "find_span x deg ks ?nb = Inr (int s)"
    and b: "bspline_basis x deg ks = Inr row"
    using bspline_basis_pure [OF assms, of x] by auto
  have l: "int (length row) = ?nb" using bspline_basis_length [OF assms(1) b] .
  have g: "\<exists>p. init_basis_prev sp' ?nb = Inr p" if "deg + 1 - int (length ks) \<le> sp'" for sp'
    using that assms
    by (auto simp: init_basis_prev_def np_zeros_def try_bind_def setitem_def Let_def)
  show ?thesis using s b l g by (intro exI [of _ row] exI [of _ "int s"]) simp
qed

theorem evaluator_stays_in_bounds_witness:
  "(0::int) \<le> 1 \<and> 1 + 2 \<le> int (length example_knots) \<and>
   (\<exists>row. bspline_basis 12 1 example_knots = Inr row \<and> int (length row) = 6)"
proof -
  have h1: "(0::int) \<le> 1" by simp
  have h2: "1 + 2 \<le> int (length example_knots)" by (simp add: example_knots_def)
  have l: "int (length example_knots) - 1 - 1 = 6" by (simp add: example_knots_def)
  show ?thesis
    using h1 h2 evaluator_stays_in_bounds [OF h1 h2, of 12] unfolding l by blast
qed




text \<open>
  Claim C7. For degree 0, an ascending knot vector with at least two knots and a query
  point between the first and the last knot, the evaluator returns the one-hot vector
  of length \<open>n_bases\<close>: 1 at an index \<open>s\<close> with \<open>knots[s] \<le> x \<le> knots[s+1]\<close> (and
  \<open>x < knots[s+1]\<close> unless \<open>x\<close> is the last knot), 0 everywhere else.
\<close>

theorem degree_zero_one_hot:
  assumes "sorted ks" and "2 \<le> length ks" and "ks ! 0 \<le> x" and "x \<le> last ks"
  shows "\<exists>s. s < length ks - 1 \<and> ks ! s \<le> x \<and> x \<le> ks ! (s + 1) \<and>
           (x = last ks \<or> x < ks ! (s + 1)) \<and>
           bspline_basis x 0 ks = Inr ((replicate (length ks - 1) 0)[s := 1])"
proof -
  define n where "n = nat (int (length ks) - 0 - 1)"
  have n: "n = length ks - 1" using assms(2) by (simp add: n_def)
  have lastk: "last ks = ks ! n"
    using assms(2) n by (cases ks) (auto simp: last_conv_nth)
  obtain s where s: "find_span x 0 ks (int (length ks) - 0 - 1) = Inr (int s)"
    and b: "bspline_basis x 0 ks
            = Inr (spec_levels x ks n [1..<nat (0 + 1)]
                     (if s < n then (replicate n 0)[s := 1] else replicate n 0))"
    using bspline_basis_pure [of 0 ks x] assms(2) n_def by auto
  have sd: "nat 0 \<le> s \<and> s < n \<and> ks ! s \<le> x \<and> x \<le> ks ! (s + 1) \<and>
         (x < ks ! n \<or> ks ! (n - 1) < ks ! n \<longrightarrow> ks ! s < ks ! (s + 1)) \<and>
         (x \<noteq> last ks \<longrightarrow> x < ks ! n \<longrightarrow> x < ks ! (s + 1))"
    using span_in_domain [OF assms(1) _ _ n_def _ _ s] assms(2,3,4) lastk by simp
  then have "x = last ks \<or> x < ks ! (s + 1)" using assms(4) lastk by auto
  moreover have "bspline_basis x 0 ks = Inr ((replicate (length ks - 1) 0)[s := 1])"
    using b sd n by (simp add: spec_levels_def)
  ultimately show ?thesis using sd n by auto
qed

theorem degree_zero_one_hot_witness:
  "sorted example_knots \<and> 2 \<le> length example_knots \<and> example_knots ! 0 \<le> 5 \<and>
   5 \<le> last example_knots \<and>
   (\<exists>s. s < length example_knots - 1 \<and> example_knots ! s \<le> 5 \<and> 5 < example_knots ! (s + 1) \<and>
      bspline_basis 5 0 example_knots = Inr ((replicate (length example_knots - 1) 0)[s := 1]))"
proof -
  have h1: "sorted example_knots" by (simp add: example_knots_def)
  have h2: "2 \<le> length example_knots" by (simp add: example_knots_def)
  have h3: "example_knots ! 0 \<le> 5" by (simp add: example_knots_def)
  have h4: "5 \<le> last example_knots" by (simp add: example_knots_def)
  have h5: "5 \<noteq> last example_knots" by (simp add: example_knots_def)
  show ?thesis
    using h1 h2 h3 h4 h5 degree_zero_one_hot [OF h1 h2 h3 h4] by blast
qed






section \<open>The knot vector builder\<close>

lemma quantile_grid:
  "0 \<le> nk \<Longrightarrow>
   np_linspace 0 1 (nk + 2) = Inr g \<Longrightarrow>
   butlast (tl g) = map (\<lambda>i. real i / (real_of_int nk + 1)) [1..<Suc (nat nk)]"
proof -
  assume nk: "0 \<le> nk" and g: "np_linspace 0 1 (nk + 2) = Inr g"
  have n2: "nat (nk + 2) = Suc (Suc (nat nk))" using nk by simp
  have "g = map (\<lambda>i. real i / (real_of_int nk + 1)) [0..<Suc (Suc (nat nk))]"
    using g nk unfolding np_linspace_def n2 by (auto simp: algebra_simps)
  moreover have "[0..<Suc (Suc (nat nk))] = 0 # [Suc 0..<Suc (Suc (nat nk))]"
    by (rule upt_conv_Cons) simp
  ultimately have "tl g = map (\<lambda>i. real i / (real_of_int nk + 1)) [1..<Suc (Suc (nat nk))]"
    by (simp only: list.map list.sel One_nat_def)
  then have "butlast (tl g) = map (\<lambda>i. real i / (real_of_int nk + 1)) (butlast [1..<Suc (Suc (nat nk))])"
    by (simp only: map_butlast)
  moreover have "butlast [1..<Suc (Suc (nat nk))] = [1..<Suc (nat nk)]"
    by simp
  ultimately show ?thesis by simp
qed

lemma quantile_at_between:
  assumes "sorted srt" "srt \<noteq> []" "0 \<le> p" "p \<le> 1"
  shows "\<exists>lo hi. lo \<le> hi \<and> hi < length srt \<and> lo = nat \<lfloor>p * (real (length srt) - 1)\<rfloor> \<and>
           hi = min (lo + 1) (length srt - 1) \<and>
           srt ! lo \<le> quantile_at srt p \<and> quantile_at srt p \<le> srt ! hi"
proof -
  define n where "n = length srt"
  define h where "h = p * (real n - 1)"
  define lo where "lo = nat \<lfloor>h\<rfloor>"
  define hi where "hi = min (lo + 1) (n - 1)"
  have n1: "1 \<le> n" using assms(2) by (cases srt) (simp_all add: n_def)
  have h0: "0 \<le> h" using assms(3) n1 by (simp add: h_def)
  have h1: "h \<le> real n - 1"
    using assms(4) n1 mult_left_le_one_le [of "real n - 1" p] assms(3) by (simp add: h_def mult.commute)
  have lo_le: "real lo \<le> h" using h0 by (simp add: lo_def)
  have lo_lt: "h < real lo + 1" using h0 by (simp add: lo_def)
  have lon: "lo \<le> n - 1" using lo_le h1 n1 by linarith
  have hin: "hi < n" "lo \<le> hi" using lon n1 by (auto simp: hi_def)
  have d: "srt ! lo \<le> srt ! hi" using assms(1) hin by (simp add: sorted_nth_mono n_def)
  have q: "quantile_at srt p = srt ! lo + (h - real lo) * (srt ! hi - srt ! lo)"
    by (simp add: quantile_at_def Let_def n_def h_def lo_def hi_def)
  have f0: "0 \<le> h - real lo" "h - real lo \<le> 1" using lo_le lo_lt by auto
  have a: "0 \<le> (h - real lo) * (srt ! hi - srt ! lo)" using f0 d by simp
  have b: "(h - real lo) * (srt ! hi - srt ! lo) \<le> 1 * (srt ! hi - srt ! lo)"
    using f0 d by (intro mult_right_mono) auto
  show ?thesis
    using hin a b q unfolding n_def [symmetric] h_def [symmetric] lo_def [symmetric] hi_def [symmetric]
    by (intro exI [of _ lo] exI [of _ hi]) (simp add: hi_def lo_def)
qed

lemma quantile_at_in_range:
  assumes "sorted srt" "srt \<noteq> []" "0 \<le> p" "p \<le> 1"
  shows "Min (set srt) \<le> quantile_at srt p \<and> quantile_at srt p \<le> Max (set srt)"
proof -
  obtain lo hi where "lo \<le> hi" "hi < length srt"
    "srt ! lo \<le> quantile_at srt p" "quantile_at srt p \<le> srt ! hi"
    using quantile_at_between [OF assms] by blast
  moreover from this have "Min (set srt) \<le> srt ! lo" "srt ! hi \<le> Max (set srt)"
    by simp_all
  ultimately show ?thesis by linarith
qed

lemma quantile_at_mono:
  assumes "sorted srt" "srt \<noteq> []" "0 \<le> p" "p \<le> q" "q \<le> 1"
  shows "quantile_at srt p \<le> quantile_at srt q"
proof -
  define n where "n = length srt"
  have n1: "1 \<le> n" using assms(2) by (cases srt) (simp_all add: n_def)
  obtain lo1 hi1 where 1: "lo1 \<le> hi1" "hi1 < n" "lo1 = nat \<lfloor>p * (real n - 1)\<rfloor>"
    "hi1 = min (lo1 + 1) (n - 1)"
    "srt ! lo1 \<le> quantile_at srt p" "quantile_at srt p \<le> srt ! hi1"
    using quantile_at_between [OF assms(1,2,3)] assms(4,5) unfolding n_def by force
  obtain lo2 hi2 where 2: "lo2 \<le> hi2" "hi2 < n" "lo2 = nat \<lfloor>q * (real n - 1)\<rfloor>"
    "hi2 = min (lo2 + 1) (n - 1)"
    "srt ! lo2 \<le> quantile_at srt q" "quantile_at srt q \<le> srt ! hi2"
    using quantile_at_between [OF assms(1,2) _ assms(5)] assms(3,4) unfolding n_def by force
  have hh: "p * (real n - 1) \<le> q * (real n - 1)"
    using assms(4) n1 by (intro mult_right_mono) auto
  then have lole: "lo1 \<le> lo2" unfolding 1(3) 2(3) by (intro nat_mono floor_mono)
  show ?thesis
  proof (cases "lo1 = lo2")
    case True
    then have hi: "hi1 = hi2" using 1(4) 2(4) by simp
    have d: "0 \<le> srt ! hi1 - srt ! lo1"
      using assms(1) 1(1,2) by (simp add: sorted_nth_mono n_def)
    have "quantile_at srt p = srt ! lo1 + (p * (real n - 1) - real lo1) * (srt ! hi1 - srt ! lo1)"
      unfolding 1(3,4) by (simp add: quantile_at_def Let_def n_def)
    moreover have "quantile_at srt q
                   = srt ! lo1 + (q * (real n - 1) - real lo1) * (srt ! hi1 - srt ! lo1)"
      unfolding True hi 2(3,4) by (simp add: quantile_at_def Let_def n_def)
    moreover have "(p * (real n - 1) - real lo1) * (srt ! hi1 - srt ! lo1)
                   \<le> (q * (real n - 1) - real lo1) * (srt ! hi1 - srt ! lo1)"
      using hh d by (intro mult_right_mono) auto
    ultimately show ?thesis by simp
  next
    case False
    then have "hi1 \<le> lo2" using lole 1(4) by simp
    then have "srt ! hi1 \<le> srt ! lo2"
      using assms(1) 2(1,2) by (simp add: sorted_nth_mono n_def)
    then show ?thesis using 1(6) 2(5) by linarith
  qed
qed


lemma interior_knots_quantiles:
  assumes "knots self = None" "0 \<le> n_knots self" "X_flat \<noteq> []"
  shows "interior_knots_of self X_flat
         = Inr (map (\<lambda>i. quantile_at (sort X_flat) (real i / (real_of_int (n_knots self) + 1)))
                  [1..<Suc (nat (n_knots self))])"
proof -
  let ?nk = "n_knots self"
  let ?grid = "map (\<lambda>i. real i / (real_of_int ?nk + 1)) [1..<Suc (nat ?nk)]"
  obtain g where g: "np_linspace 0 1 (?nk + 2) = Inr g"
    using assms(2) by (simp add: np_linspace_def)
  have bt: "butlast (tl g) = ?grid" using quantile_grid [OF assms(2) g] .
  have rng: "\<not> (\<exists>p \<in> set ?grid. p < 0 \<or> 1 < p)"
    using assms(2) by (auto simp: not_less)
  have "np_quantile X_flat ?grid = Inr (map (quantile_at (sort X_flat)) ?grid)"
    using rng assms(3) unfolding np_quantile_def by (simp only: if_False)
  then show ?thesis
    using assms(1) g bt by (simp add: interior_knots_of_def try_bind_def comp_def)
qed

lemma padded_bounds:
  assumes "X_flat \<noteq> []"
  shows "padded_min X_flat \<le> Min (set X_flat)" and "Max (set X_flat) \<le> padded_max X_flat"
proof -
  have mm: "Min (set X_flat) \<le> Max (set X_flat)" using assms by simp
  then show 1: "padded_min X_flat \<le> Min (set X_flat)" by (simp add: padded_min_def)
  then show "Max (set X_flat) \<le> padded_max X_flat" using mm by (simp add: padded_max_def)
qed

lemma sort_nonempty: "xs \<noteq> [] \<Longrightarrow> sort xs \<noteq> []"
  using length_sort [of "\<lambda>x. x" xs] by (cases "sort xs") auto

lemma quantile_knots_sorted:
  assumes "0 \<le> nk" "X_flat \<noteq> []"
  shows "sorted (map (\<lambda>i. quantile_at (sort X_flat) (real i / (real_of_int nk + 1)))
                  [1..<Suc (nat nk)])"
proof -
  have srt: "sorted (sort X_flat)" "sort X_flat \<noteq> []"
    using assms(2) by (simp_all add: sort_nonempty)
  have mono: "quantile_at (sort X_flat) (real i / (real_of_int nk + 1))
              \<le> quantile_at (sort X_flat) (real j / (real_of_int nk + 1))"
    if "i \<in> set [1..<Suc (nat nk)]" "j \<in> set [1..<Suc (nat nk)]" "i \<le> j" for i j
  proof -
    have "0 \<le> real i / (real_of_int nk + 1)" using assms(1) by simp
    moreover have "real i / (real_of_int nk + 1) \<le> real j / (real_of_int nk + 1)"
      using that(3) assms(1) by (simp add: divide_right_mono)
    moreover have "real j / (real_of_int nk + 1) \<le> 1" using that(2) assms(1) by auto
    ultimately show ?thesis using quantile_at_mono [OF srt] by blast
  qed
  have "sorted_wrt (\<lambda>i j. quantile_at (sort X_flat) (real i / (real_of_int nk + 1))
              \<le> quantile_at (sort X_flat) (real j / (real_of_int nk + 1))) [1..<Suc (nat nk)]"
  proof (rule sorted_wrt_mono_rel [of "[1..<Suc (nat nk)]" "(\<le>)"])
    show "sorted [1..<Suc (nat nk)]" by (rule sorted_upt)
  next
    fix i j assume "i \<in> set [1..<Suc (nat nk)]" "j \<in> set [1..<Suc (nat nk)]" "i \<le> j"
    then show "quantile_at (sort X_flat) (real i / (real_of_int nk + 1))
              \<le> quantile_at (sort X_flat) (real j / (real_of_int nk + 1))"
      by (rule mono)
  qed
  then show ?thesis by (simp only: sorted_map)
qed

lemma quantile_knots_range:
  assumes "0 \<le> nk" "X_flat \<noteq> []"
    and "v \<in> set (map (\<lambda>i. quantile_at (sort X_flat) (real i / (real_of_int nk + 1)))
                  [1..<Suc (nat nk)])"
  shows "Min (set X_flat) \<le> v \<and> v \<le> Max (set X_flat)"
proof -
  have srt: "sorted (sort X_flat)" "sort X_flat \<noteq> []"
    using assms(2) by (simp_all add: sort_nonempty)
  obtain i where i: "1 \<le> i" "i \<le> nat nk" "v = quantile_at (sort X_flat) (real i / (real_of_int nk + 1))"
    using assms(3) by auto
  have "0 \<le> real i / (real_of_int nk + 1)" using assms(1) by simp
  moreover have "real i / (real_of_int nk + 1) \<le> 1" using i(2) assms(1) by auto
  ultimately show ?thesis
    using quantile_at_in_range [OF srt] i(3) by simp
qed


lemma ravel_ensure_2d: "ravel (ensure_2d X) = ravel X"
  by (simp add: ensure_2d_def)

lemma ensure_2d_column:
  assumes "shape X = [length (ravel X)] \<or> shape X = [length (ravel X), 1]"
  shows "shape (ensure_2d X) = [length (ravel X), 1]"
  using assms by (auto simp: ensure_2d_def)

lemma fit_value:
  assumes shp: "shape X = [length (ravel X)] \<or> shape X = [length (ravel X), 1]"
    and ne: "ravel X \<noteq> []" and deg: "0 \<le> degree self"
    and ik: "interior_knots_of self (ravel X) = Inr ik"
  shows "fit self X
         = Inr (self\<lparr>knots_fitted :=
                       Some (replicate (nat (degree self + 1)) (padded_min (ravel X)) @ ik @
                             replicate (nat (degree self + 1)) (padded_max (ravel X))),
                     n_bases_fitted :=
                       Some (int (length (replicate (nat (degree self + 1)) (padded_min (ravel X)) @ ik @
                             replicate (nat (degree self + 1)) (padded_max (ravel X))))
                             - degree self - 1)\<rparr>)"
proof -
  have s2: "length (shape (ensure_2d X)) = 2" "shape (ensure_2d X) ! 1 = 1"
    using ensure_2d_column [OF shp] by simp_all
  have mn: "np_min (ravel X) = Inr (Min (set (ravel X)))"
    and mx: "np_max (ravel X) = Inr (Max (set (ravel X)))"
    using ne by (simp_all add: np_min_def np_max_def)
  have rp: "np_repeat v (degree self + 1) = Inr (replicate (nat (degree self + 1)) v)" for v
    using deg by (simp add: np_repeat_def)
  show ?thesis
    unfolding fit_def Let_def ravel_ensure_2d
    using s2 by (simp add: ik mn mx rp try_bind_def padded_min_def padded_max_def)
qed

lemma fit_Inr_facts:
  assumes "fit self0 X0 = Inr self" and "0 \<le> degree self0"
  shows "\<exists>kn. knots_fitted self = Some kn \<and>
              n_bases_fitted self = Some (int (length kn) - degree self0 - 1) \<and>
              2 * (degree self0 + 1) \<le> int (length kn) \<and>
              degree self = degree self0 \<and> include_bias self = include_bias self0"
  using assms
  by (auto simp: fit_def Let_def try_bind_def np_repeat_def
           split: if_splits sum.splits)


section \<open>Claims about \<^verbatim>\<open>fit\<close> and \<^verbatim>\<open>transform\<close>\<close>

text \<open>
  Claim C2, as amended. For a degree that is not negative, a non-empty sample given as a
  one-dimensional array or a single column, and a count of quantile knots that is not
  negative when no explicit knots are given, \<open>fit\<close> succeeds and stores the knot vector
  \<open>[x_min]\<^sup>d\<^sup>+\<^sup>1 @ interior_knots @ [x_max]\<^sup>d\<^sup>+\<^sup>1\<close> with the padded extremes, of length
  \<open>n_interior + 2\<cdot>(degree + 1)\<close>, and \<open>n_bases = len(knots) - degree - 1\<close>. The vector is
  non-decreasing when the interior knots are the quantiles (there are \<open>n_knots\<close> of
  them), and when explicit knots are ascending and lie within \<open>[x_min, x_max]\<close>;
  explicit knots are stored verbatim and are not checked.
\<close>

theorem knot_vector_construction:
  assumes "0 \<le> degree self" and "ravel X \<noteq> []"
    and "shape X = [length (ravel X)] \<or> shape X = [length (ravel X), 1]"
    and "knots self = None \<longrightarrow> 0 \<le> n_knots self"
  shows "\<exists>ik kn st. interior_knots_of self (ravel X) = Inr ik \<and> fit self X = Inr st \<and>
           knots_fitted st = Some kn \<and>
           kn = replicate (nat (degree self + 1)) (padded_min (ravel X)) @ ik @
                replicate (nat (degree self + 1)) (padded_max (ravel X)) \<and>
           int (length kn) = int (length ik) + 2 * (degree self + 1) \<and>
           n_bases_fitted st = Some (int (length kn) - degree self - 1) \<and>
           (knots self = None \<longrightarrow> int (length ik) = n_knots self \<and> sorted kn) \<and>
           (\<forall>ks. knots self = Some ks \<longrightarrow> ik = ks \<and>
              (sorted ks \<and> (\<forall>k \<in> set ks. padded_min (ravel X) \<le> k \<and> k \<le> padded_max (ravel X))
               \<longrightarrow> sorted kn))"
proof -
  let ?a = "padded_min (ravel X)" and ?b = "padded_max (ravel X)"
  let ?r = "nat (degree self + 1)"
  have "Min (set (ravel X)) \<le> Max (set (ravel X))" using assms(2) by simp
  then have ab: "?a \<le> ?b"
    using padded_bounds [OF assms(2)] by linarith
  have srt: "sorted (replicate ?r ?a @ ik @ replicate ?r ?b)"
    if "sorted ik" "\<forall>k \<in> set ik. ?a \<le> k \<and> k \<le> ?b" for ik
    using that ab by (auto simp: sorted_append)
  obtain ik where ik: "interior_knots_of self (ravel X) = Inr ik"
    and q: "knots self = None \<longrightarrow> int (length ik) = n_knots self \<and> sorted ik \<and>
              (\<forall>k \<in> set ik. ?a \<le> k \<and> k \<le> ?b)"
    and e: "\<forall>ks. knots self = Some ks \<longrightarrow> ik = ks"
  proof (cases "knots self")
    case None
    then have nk: "0 \<le> n_knots self" using assms(4) by simp
    let ?q = "map (\<lambda>i. quantile_at (sort (ravel X)) (real i / (real_of_int (n_knots self) + 1)))
                  [1..<Suc (nat (n_knots self))]"
    have 1: "interior_knots_of self (ravel X) = Inr ?q"
      using interior_knots_quantiles [OF None nk assms(2)] .
    have 2: "sorted ?q" using quantile_knots_sorted [OF nk assms(2)] .
    have 3: "\<forall>k \<in> set ?q. ?a \<le> k \<and> k \<le> ?b"
    proof
      fix k assume "k \<in> set ?q"
      then have "Min (set (ravel X)) \<le> k \<and> k \<le> Max (set (ravel X))"
        using quantile_knots_range [OF nk assms(2)] by blast
      then show "?a \<le> k \<and> k \<le> ?b" using padded_bounds [OF assms(2)] by linarith
    qed
    have 4: "int (length ?q) = n_knots self" using nk by (simp del: upt_Suc)
    have q': "knots self = None \<longrightarrow> int (length ?q) = n_knots self \<and> sorted ?q \<and>
              (\<forall>k \<in> set ?q. ?a \<le> k \<and> k \<le> ?b)"
      by (intro impI conjI 4 2 3)
    have e': "\<forall>ks. knots self = Some ks \<longrightarrow> ?q = ks" by (simp only: None) simp
    show ?thesis by (rule that [OF 1 q' e'])
  next
    case (Some ks)
    have 1: "interior_knots_of self (ravel X) = Inr ks"
      by (simp add: interior_knots_of_def Some)
    have q': "knots self = None \<longrightarrow> int (length ks) = n_knots self \<and> sorted ks \<and>
              (\<forall>k \<in> set ks. ?a \<le> k \<and> k \<le> ?b)"
      by (simp only: Some) simp
    have e': "\<forall>ks'. knots self = Some ks' \<longrightarrow> ks = ks'" by (simp only: Some) simp
    show ?thesis by (rule that [OF 1 q' e'])
  qed
  let ?kn = "replicate ?r ?a @ ik @ replicate ?r ?b"
  let ?st = "self\<lparr>knots_fitted := Some ?kn,
                   n_bases_fitted := Some (int (length ?kn) - degree self - 1)\<rparr>"
  have f: "fit self X = Inr ?st" using fit_value [OF assms(3,2,1) ik] .
  have l: "int (length ?kn) = int (length ik) + 2 * (degree self + 1)"
    using assms(1) by simp
  have c1: "knots_fitted ?st = Some ?kn" by simp
  have c2: "n_bases_fitted ?st = Some (int (length ?kn) - degree self - 1)" by simp
  have c3: "knots self = None \<longrightarrow> int (length ik) = n_knots self \<and> sorted ?kn"
  proof (intro impI conjI)
    assume n: "knots self = None"
    from q n have a: "int (length ik) = n_knots self" and b: "sorted ik"
      and c: "\<forall>k \<in> set ik. ?a \<le> k \<and> k \<le> ?b" by simp_all
    show "int (length ik) = n_knots self" by (rule a)
    show "sorted ?kn" by (rule srt [OF b c])
  qed
  have c4: "\<forall>ks. knots self = Some ks \<longrightarrow> ik = ks \<and>
              (sorted ks \<and> (\<forall>k \<in> set ks. ?a \<le> k \<and> k \<le> ?b) \<longrightarrow> sorted ?kn)"
  proof (intro allI impI conjI)
    fix ks assume s: "knots self = Some ks"
    then show eq: "ik = ks" using e by simp
    assume "sorted ks \<and> (\<forall>k \<in> set ks. ?a \<le> k \<and> k \<le> ?b)"
    then have b: "sorted ks" and c: "\<forall>k \<in> set ks. ?a \<le> k \<and> k \<le> ?b" by simp_all
    show "sorted ?kn" unfolding eq by (rule srt [OF b c])
  qed
  show ?thesis
    by (intro exI [of _ ik] exI [of _ ?kn] exI [of _ ?st] conjI ik f c1 refl l c2 c3 c4)
qed

theorem knot_vector_construction_witness:
  "0 \<le> degree (init 3 5 None True) \<and> ravel \<lparr>shape = [4], ravel = [0, 3, 1, 10]\<rparr> \<noteq> [] \<and>
   shape \<lparr>shape = [4], ravel = [0, 3, 1, 10]\<rparr> = [length (ravel \<lparr>shape = [4], ravel = [0, 3, 1, 10]\<rparr>)] \<and>
   0 \<le> n_knots (init 3 5 None True) \<and> knots (init 3 5 None True) = None \<and>
   (\<exists>kn st. fit (init 3 5 None True) \<lparr>shape = [4], ravel = [0, 3, 1, 10]\<rparr> = Inr st \<and>
      knots_fitted st = Some kn \<and> int (length kn) = 13 \<and> n_bases_fitted st = Some 9 \<and> sorted kn)"
proof -
  let ?self = "init 3 5 None True" and ?X = "\<lparr>shape = [4], ravel = [0, 3, 1, 10]\<rparr>"
  have h1: "0 \<le> degree ?self" by (simp add: init_def)
  have h2: "ravel ?X \<noteq> []" by simp
  have h3: "shape ?X = [length (ravel ?X)] \<or> shape ?X = [length (ravel ?X), 1]" by simp
  have h4: "knots ?self = None \<longrightarrow> 0 \<le> n_knots ?self" by (simp add: init_def)
  have h5: "knots ?self = None" "n_knots ?self = 5" "degree ?self = 3" by (simp_all add: init_def)
  have "\<exists>kn st. fit ?self ?X = Inr st \<and> knots_fitted st = Some kn \<and> int (length kn) = 13 \<and>
             n_bases_fitted st = Some 9 \<and> sorted kn"
    using knot_vector_construction [OF h1 h2 h3 h4] unfolding h5
    by (elim exE conjE) auto
  then show ?thesis using h1 h5 by auto
qed

text \<open>
  Claim C2 as stated fails for explicit knots: an ascending explicit knot outside the
  data range is stored between the two boundary blocks, and the vector is not
  non-decreasing.
\<close>

theorem knot_vector_counterexample:
  "fit (init 0 5 (Some [7]) True) \<lparr>shape = [2], ravel = [0, 1]\<rparr>
     = Inr ((init 0 5 (Some [7]) True)
              \<lparr>knots_fitted := Some [- (1 / 10 ^ 10), 7, 1 + (1 / 10 ^ 10) * (1 + 1 / 10 ^ 10)],
               n_bases_fitted := Some 2\<rparr>) \<and>
   \<not> sorted [- (1 / 10 ^ 10), 7, 1 + (1 / 10 ^ 10) * (1 + 1 / 10 ^ 10) :: real]"
proof -
  have "fit (init 0 5 (Some [7]) True) \<lparr>shape = [2], ravel = [0, 1]\<rparr>
     = Inr ((init 0 5 (Some [7]) True)
              \<lparr>knots_fitted := Some [- (1 / 10 ^ 10), 7, 1 + (1 / 10 ^ 10) * (1 + 1 / 10 ^ 10)],
               n_bases_fitted := Some 2\<rparr>)"
    by code_simp
  moreover have "\<not> sorted [- (1 / 10 ^ 10), 7, 1 + (1 / 10 ^ 10) * (1 + 1 / 10 ^ 10) :: real]"
    by code_simp
  ultimately show ?thesis by (rule conjI)
qed


lemma interior_knots_total:
  assumes "X_flat \<noteq> []" and "knots self = None \<longrightarrow> 0 \<le> n_knots self"
  shows "\<exists>ik. interior_knots_of self X_flat = Inr ik"
proof (cases "knots self")
  case None
  then show ?thesis using interior_knots_quantiles [OF None _ assms(1)] assms(2) by blast
next
  case (Some ks)
  then show ?thesis by (simp add: interior_knots_of_def)
qed

text \<open>
  Claim C5, as amended. The program has one explicit check: \<open>fit\<close> raises
  \<^verbatim>\<open>ValueError\<close> when the input, after a one-dimensional input has become a column,
  has a second dimension other than 1. A non-empty one-dimensional or single-column
  input with a degree that is not negative (and a count of quantile knots that is not
  negative when no explicit knots are given) is fitted without error, whatever the
  order of the explicit knots. \<open>transform\<close> on an instance that was never fitted fails
  on the missing attribute, with \<^verbatim>\<open>AttributeError\<close>.
\<close>

theorem fit_transform_failures:
  shows "(2 \<le> length (shape X) \<and> shape X ! 1 \<noteq> 1 \<longrightarrow> fit self X = Inl ValueError) \<and>
         ((shape X = [length (ravel X)] \<or> shape X = [length (ravel X), 1]) \<and> ravel X \<noteq> [] \<and>
          0 \<le> degree self \<and> (knots self = None \<longrightarrow> 0 \<le> n_knots self)
          \<longrightarrow> (\<exists>st. fit self X = Inr st)) \<and>
         (n_bases_fitted self = None \<longrightarrow> transform self X = Inl AttributeError)"
proof (intro conjI impI)
  assume a: "2 \<le> length (shape X) \<and> shape X ! 1 \<noteq> 1"
  then have "ensure_2d X = X" by (auto simp: ensure_2d_def)
  then show "fit self X = Inl ValueError" using a by (simp add: fit_def)
next
  assume a: "(shape X = [length (ravel X)] \<or> shape X = [length (ravel X), 1]) \<and> ravel X \<noteq> [] \<and>
          0 \<le> degree self \<and> (knots self = None \<longrightarrow> 0 \<le> n_knots self)"
  then have 1: "0 \<le> degree self" and 2: "ravel X \<noteq> []"
    and 3: "shape X = [length (ravel X)] \<or> shape X = [length (ravel X), 1]"
    and 4: "knots self = None \<longrightarrow> 0 \<le> n_knots self" by simp_all
  obtain ik where "interior_knots_of self (ravel X) = Inr ik"
    using interior_knots_total [OF 2 4] by blast
  then show "\<exists>st. fit self X = Inr st"
    using fit_value [OF 3 2 1] by blast
next
  assume "n_bases_fitted self = None"
  then show "transform self X = Inl AttributeError" by (simp add: transform_def)
qed

theorem fit_transform_failures_witness:
  "fit (init 3 5 None True) \<lparr>shape = [2, 2], ravel = [0, 1, 2, 3]\<rparr> = Inl ValueError \<and>
   (\<exists>st. fit (init 3 5 (Some [5, 2]) True) \<lparr>shape = [3], ravel = [0, 1, 2]\<rparr> = Inr st) \<and>
   transform (init 3 5 None True) \<lparr>shape = [3], ravel = [0, 1, 2]\<rparr> = Inl AttributeError"
proof -
  have a: "fit (init 3 5 None True) \<lparr>shape = [2, 2], ravel = [0, 1, 2, 3]\<rparr> = Inl ValueError"
    using fit_transform_failures [of "\<lparr>shape = [2, 2], ravel = [0, 1, 2, 3]\<rparr>" "init 3 5 None True"]
    by simp
  have b: "\<exists>st. fit (init 3 5 (Some [5, 2]) True) \<lparr>shape = [3], ravel = [0, 1, 2]\<rparr> = Inr st"
    using fit_transform_failures [of "\<lparr>shape = [3], ravel = [0, 1, 2]\<rparr>" "init 3 5 (Some [5, 2]) True"]
    by (simp add: init_def)
  have c: "transform (init 3 5 None True) \<lparr>shape = [3], ravel = [0, 1, 2]\<rparr> = Inl AttributeError"
    using fit_transform_failures [of "\<lparr>shape = [3], ravel = [0, 1, 2]\<rparr>" "init 3 5 None True"]
    by (simp add: init_def)
  show ?thesis using a b c by (intro conjI)
qed

text \<open>
  Claim C5 as stated fails: explicit knots that are not ascending are accepted, and so
  is the negative degree \<open>-1\<close>; the one explicit check raises \<^verbatim>\<open>ValueError\<close>; and
  \<open>transform\<close> before \<open>fit\<close> fails with \<^verbatim>\<open>AttributeError\<close>, at the first attribute
  read, not by a validation.
\<close>

theorem fit_transform_failures_counterexample:
  "fit (init 1 5 (Some [5, 2]) True) \<lparr>shape = [2], ravel = [0, 1]\<rparr>
     = Inr ((init 1 5 (Some [5, 2]) True)
              \<lparr>knots_fitted := Some [- (1 / 10 ^ 10), - (1 / 10 ^ 10), 5, 2,
                                     1 + (1 / 10 ^ 10) * (1 + 1 / 10 ^ 10),
                                     1 + (1 / 10 ^ 10) * (1 + 1 / 10 ^ 10)],
               n_bases_fitted := Some 4\<rparr>) \<and>
   \<not> sorted [5, 2 :: real] \<and>
   fit (init (- 1) 5 (Some [7]) True) \<lparr>shape = [2], ravel = [0, 1]\<rparr>
     = Inr ((init (- 1) 5 (Some [7]) True)\<lparr>knots_fitted := Some [7], n_bases_fitted := Some 1\<rparr>) \<and>
   fit (init 3 5 None True) \<lparr>shape = [2, 2], ravel = [0, 1, 2, 3]\<rparr> = Inl ValueError \<and>
   transform (init 3 5 None True) \<lparr>shape = [3], ravel = [0, 1, 2]\<rparr> = Inl AttributeError"
  by code_simp


lemma constant_extremes:
  assumes "X_flat \<noteq> []" and "\<forall>v \<in> set X_flat. v = c"
  shows "Min (set X_flat) = c" and "Max (set X_flat) = c"
proof -
  have "set X_flat = {c}" using assms by (cases X_flat) auto
  then show "Min (set X_flat) = c" and "Max (set X_flat) = c" by simp_all
qed

lemma constant_padded:
  assumes "X_flat \<noteq> []" and "\<forall>v \<in> set X_flat. v = c"
  shows "padded_min X_flat = c" and "padded_max X_flat = c"
  using constant_extremes [OF assms] by (simp_all add: padded_min_def padded_max_def)

lemma constant_interior_knots:
  assumes "X_flat \<noteq> []" and "\<forall>v \<in> set X_flat. v = c"
    and "knots self = None" and "0 \<le> n_knots self"
  shows "interior_knots_of self X_flat = Inr (replicate (nat (n_knots self)) c)"
proof -
  let ?q = "map (\<lambda>i. quantile_at (sort X_flat) (real i / (real_of_int (n_knots self) + 1)))
                [1..<Suc (nat (n_knots self))]"
  have "\<forall>v \<in> set ?q. v = c"
  proof
    fix v assume "v \<in> set ?q"
    then have "Min (set X_flat) \<le> v \<and> v \<le> Max (set X_flat)"
      using quantile_knots_range [OF assms(4,1)] by blast
    then show "v = c" using constant_extremes [OF assms(1,2)] by simp
  qed
  then have "?q = replicate (length ?q) c"
    by (simp only: replicate_length_same)
  moreover have "length ?q = nat (n_knots self)" by (simp del: upt_Suc)
  ultimately have "?q = replicate (nat (n_knots self)) c" by (simp only:)
  then show ?thesis using interior_knots_quantiles [OF assms(3,4,1)] by (simp only:)
qed

lemma spec_level_constant_knots:
  assumes "n + d \<le> N" and "1 \<le> d"
  shows "spec_level x (replicate N c) n d p = replicate n 0"
proof (rule nth_equalityI)
  show "length (spec_level x (replicate N c) n d p) = length (replicate n (0::real))"
    by (simp add: length_spec_level)
next
  fix i assume "i < length (spec_level x (replicate N c) n d p)"
  then have i: "i < n" by (simp add: length_spec_level)
  have L: "spec_L x (replicate N c) d p i = 0"
    using i assms by (simp add: spec_L_def)
  have R: "spec_R x (replicate N c) d n p i = 0"
    using i assms by (simp add: spec_R_def)
  show "spec_level x (replicate N c) n d p ! i = replicate n 0 ! i"
    using i L R by (simp add: spec_level_nth)
qed

lemma spec_levels_zeros: "spec_levels x ks n ds (replicate n 0) = replicate n 0"
proof (rule nth_equalityI)
  show "length (spec_levels x ks n ds (replicate n 0)) = length (replicate n (0::real))"
    by (simp add: length_spec_levels)
next
  fix i assume "i < length (spec_levels x ks n ds (replicate n 0))"
  then have i: "i < n" by (simp add: length_spec_levels)
  have "\<forall>j<n. replicate n (0::real) ! j = 0" by simp
  then have "spec_levels x ks n ds (replicate n 0) ! i = 0"
    using spec_levels_zero_outside [of n "replicate n 0" x ks ds] i by blast
  then show "spec_levels x ks n ds (replicate n 0) ! i = replicate n 0 ! i" using i by simp
qed

lemma spec_levels_Cons:
  "spec_levels x ks n (d # ds) p = spec_levels x ks n ds (spec_level x ks n d p)"
  by (simp add: spec_levels_def)

lemma bspline_basis_constant_knots:
  assumes "1 \<le> deg" and "deg + 2 \<le> int N"
  shows "bspline_basis c deg (replicate N c) = Inr (replicate (nat (int N - deg - 1)) 0)"
proof -
  define n where "n = nat (int N - deg - 1)"
  define k where "k = nat deg"
  have d0: "0 \<le> deg" using assms(1) by simp
  have len: "deg + 2 \<le> int (length (replicate N c))" using assms(2) by simp
  have nn: "nat (int (length (replicate N c)) - deg - 1) = n" by (simp add: n_def)
  have "[1..<nat (deg + 1)] = 1 # [Suc 1..<nat (deg + 1)]"
    using assms(1) by (intro upt_conv_Cons) simp
  moreover have "spec_level c (replicate N c) n 1 p = replicate n 0" for p
    using spec_level_constant_knots [of n 1 N c c p] assms by (simp add: n_def)
  ultimately have z: "spec_levels c (replicate N c) n [1..<nat (deg + 1)] p = replicate n 0" for p
    by (simp only: spec_levels_Cons spec_levels_zeros)
  have "bspline_basis c deg (replicate N c) = Inr (replicate n 0)"
    using bspline_basis_pure [OF d0 len, of c] unfolding nn z by (elim exE conjE)
  then show ?thesis by (simp only: n_def)
qed


text \<open>
  Claim C10. For a non-empty sample whose values all equal \<open>c\<close>, no explicit knots, a
  count of quantile knots and a degree that are not negative, \<open>fit\<close> succeeds and every
  entry of the knot vector is \<open>c\<close>. For every degree \<open>\<ge> 1\<close> the evaluator at \<open>c\<close> then
  returns the all-zero row of length \<open>n_bases\<close>: a value, with no error, whose sum is
  0 and not 1.
\<close>

theorem constant_data_zero_row:
  assumes "knots self = None" and "0 \<le> n_knots self" and "0 \<le> degree self"
    and "ravel X \<noteq> []" and "\<forall>v \<in> set (ravel X). v = c"
    and "shape X = [length (ravel X)] \<or> shape X = [length (ravel X), 1]"
  shows "\<exists>st. fit self X = Inr st \<and>
           knots_fitted st = Some (replicate (nat (n_knots self + 2 * (degree self + 1))) c) \<and>
           n_bases_fitted st = Some (n_knots self + degree self + 1) \<and>
           (1 \<le> degree self \<longrightarrow>
              bspline_basis c (degree self) (replicate (nat (n_knots self + 2 * (degree self + 1))) c)
                = Inr (replicate (nat (n_knots self + degree self + 1)) 0) \<and>
              sum_list (replicate (nat (n_knots self + degree self + 1)) (0::real)) \<noteq> 1)"
proof -
  let ?N = "nat (n_knots self + 2 * (degree self + 1))"
  let ?r = "nat (degree self + 1)"
  have ik: "interior_knots_of self (ravel X) = Inr (replicate (nat (n_knots self)) c)"
    using constant_interior_knots [OF assms(4,5,1,2)] .
  have kn: "replicate ?r (padded_min (ravel X)) @ replicate (nat (n_knots self)) c @
            replicate ?r (padded_max (ravel X)) = replicate ?N c"
    using assms(2,3) constant_padded [OF assms(4,5)]
    by (simp add: replicate_add [symmetric] nat_add_distrib [symmetric])
  let ?st = "self\<lparr>knots_fitted := Some (replicate ?N c),
                   n_bases_fitted := Some (int (length (replicate ?N c)) - degree self - 1)\<rparr>"
  have f: "fit self X = Inr ?st"
    using fit_value [OF assms(6,4,3) ik] unfolding kn .
  have c1: "knots_fitted ?st = Some (replicate ?N c)" by simp
  have c2: "n_bases_fitted ?st = Some (n_knots self + degree self + 1)"
    using assms(2,3) by simp
  have c3: "1 \<le> degree self \<longrightarrow>
              bspline_basis c (degree self) (replicate ?N c)
                = Inr (replicate (nat (n_knots self + degree self + 1)) 0) \<and>
              sum_list (replicate (nat (n_knots self + degree self + 1)) (0::real)) \<noteq> 1"
  proof (intro impI conjI)
    assume d: "1 \<le> degree self"
    have l: "degree self + 2 \<le> int ?N" using assms(2) d by simp
    have e: "nat (int ?N - degree self - 1) = nat (n_knots self + degree self + 1)"
      using assms(2) d by simp
    show "bspline_basis c (degree self) (replicate ?N c)
            = Inr (replicate (nat (n_knots self + degree self + 1)) 0)"
      using bspline_basis_constant_knots [OF d l, of c] unfolding e .
    show "sum_list (replicate (nat (n_knots self + degree self + 1)) (0::real)) \<noteq> 1"
      by (simp add: sum_list_zeros)
  qed
  show ?thesis by (intro exI [of _ ?st] conjI f c1 c2 c3)
qed

theorem constant_data_zero_row_witness:
  "knots (init 1 1 None True) = None \<and> 0 \<le> n_knots (init 1 1 None True) \<and>
   0 \<le> degree (init 1 1 None True) \<and> ravel \<lparr>shape = [2], ravel = [3, 3]\<rparr> \<noteq> [] \<and>
   set (ravel \<lparr>shape = [2], ravel = [3, 3]\<rparr>) = {3} \<and>
   (\<exists>st. fit (init 1 1 None True) \<lparr>shape = [2], ravel = [3, 3]\<rparr> = Inr st \<and>
      knots_fitted st = Some constant_knots \<and> n_bases_fitted st = Some 3) \<and>
   bspline_basis 3 1 constant_knots = Inr [0, 0, 0]"
proof -
  let ?self = "init 1 1 None True" and ?X = "\<lparr>shape = [2], ravel = [3, 3]\<rparr>"
  have h1: "knots ?self = None" and h2: "0 \<le> n_knots ?self" and h3: "0 \<le> degree ?self"
    by (simp_all add: init_def)
  have h4: "ravel ?X \<noteq> []" by simp
  have h5: "\<forall>v \<in> set (ravel ?X). v = 3" by simp
  have h6: "shape ?X = [length (ravel ?X)] \<or> shape ?X = [length (ravel ?X), 1]" by simp
  have v: "n_knots ?self = 1" "degree ?self = 1" by (simp_all add: init_def)
  have r: "replicate (nat (1 + 2 * (1 + 1))) (3::real) = constant_knots"
    "replicate (nat (1 + 1 + 1)) (0::real) = [0, 0, 0]" "(1::int) + 1 + 1 = 3"
    by (simp_all add: constant_knots_def numeral_eq_Suc)
  note t = constant_data_zero_row [OF h1 h2 h3 h4 h5 h6, unfolded v r]
  from t have a: "\<exists>st. fit ?self ?X = Inr st \<and>
      knots_fitted st = Some constant_knots \<and> n_bases_fitted st = Some 3"
    by (elim exE conjE) (intro exI conjI; assumption)
  from t have b: "bspline_basis 3 1 constant_knots = Inr [0, 0, 0]"
    by (elim exE conjE) (simp add: numeral_eq_Suc)
  show ?thesis using h1 h2 h3 h4 a b by simp
qed


lemma fill_rows_pure:
  assumes kf: "knots_fitted self = Some kn" and deg: "0 \<le> degree self"
    and len: "degree self + 2 \<le> int (length kn)"
  shows "\<forall>i \<in> set js. i < length xs \<and> i < nrows B \<Longrightarrow> length (rows B) = nrows B \<Longrightarrow>
         int (ncols B) = int (length kn) - degree self - 1 \<Longrightarrow>
         \<exists>B'. fill_rows self xs js B = Inr B' \<and> nrows B' = nrows B \<and> ncols B' = ncols B \<and>
              length (rows B') = nrows B \<and>
              (\<forall>k<nrows B. (k \<in> set js \<longrightarrow> bspline_basis (xs ! k) (degree self) kn = Inr (rows B' ! k)) \<and>
                           (k \<notin> set js \<longrightarrow> rows B' ! k = rows B ! k))"
proof (induction js arbitrary: B)
  case Nil
  then show ?case by simp
next
  case (Cons i js)
  have i: "i < length xs" "i < nrows B" using Cons.prems(1) by simp_all
  obtain r where r: "bspline_basis (xs ! i) (degree self) kn = Inr r"
    using bspline_basis_pure [OF deg len, of "xs ! i"] by blast
  have lr: "length r = ncols B"
    using bspline_basis_length [OF deg r] Cons.prems(3) by simp
  let ?B1 = "B\<lparr>rows := (rows B)[i := r]\<rparr>"
  have sr: "set_row B i r = Inr ?B1" using i lr by (simp add: set_row_def)
  have step: "fill_rows self xs (i # js) B = fill_rows self xs js ?B1"
    using i by (simp add: getitem_nat kf r sr try_bind_def)
  have p1: "\<forall>j \<in> set js. j < length xs \<and> j < nrows ?B1" using Cons.prems(1) by simp
  have p2: "length (rows ?B1) = nrows ?B1" using Cons.prems(2) by simp
  have p3: "int (ncols ?B1) = int (length kn) - degree self - 1" using Cons.prems(3) by simp
  obtain B' where B': "fill_rows self xs js ?B1 = Inr B'" "nrows B' = nrows ?B1"
    "ncols B' = ncols ?B1" "length (rows B') = nrows ?B1"
    "\<forall>k<nrows ?B1. (k \<in> set js \<longrightarrow> bspline_basis (xs ! k) (degree self) kn = Inr (rows B' ! k)) \<and>
                           (k \<notin> set js \<longrightarrow> rows B' ! k = rows ?B1 ! k)"
    using Cons.IH [OF p1 p2 p3] by blast
  have "\<forall>k<nrows B. (k \<in> set (i # js) \<longrightarrow> bspline_basis (xs ! k) (degree self) kn = Inr (rows B' ! k)) \<and>
                    (k \<notin> set (i # js) \<longrightarrow> rows B' ! k = rows B ! k)"
  proof (intro allI impI)
    fix k assume k: "k < nrows B"
    show "(k \<in> set (i # js) \<longrightarrow> bspline_basis (xs ! k) (degree self) kn = Inr (rows B' ! k)) \<and>
          (k \<notin> set (i # js) \<longrightarrow> rows B' ! k = rows B ! k)"
    proof (cases "k \<in> set js")
      case True
      then show ?thesis using B'(5) k by simp
    next
      case False
      then have "rows B' ! k = rows ?B1 ! k" using B'(5) k by simp
      then show ?thesis using False r k Cons.prems(2) by (cases "k = i") simp_all
    qed
  qed
  then show ?case using step B' by simp
qed


text \<open>
  Claim C8. On a state that \<open>fit\<close> produced for a degree that is not negative, and an
  input of \<open>m\<close> samples, \<open>transform\<close> returns a matrix with \<open>m\<close> rows and \<open>n_bases\<close>
  columns when \<open>include_bias\<close> is true, \<open>n_bases - 1\<close> columns otherwise; row \<open>k\<close> is the
  evaluator's row for sample \<open>k\<close>, without its first entry in the second case.
\<close>

theorem transform_shape_and_rows:
  assumes "fit self0 X0 = Inr self" and "0 \<le> degree self0" and "length (ravel X) = m"
  shows "\<exists>M nb kn. n_bases_fitted self = Some nb \<and> knots_fitted self = Some kn \<and>
           transform self X = Inr M \<and> nrows M = m \<and> length (rows M) = m \<and>
           int (ncols M) = (if include_bias self then nb else nb - 1) \<and>
           (\<forall>k<m. \<exists>r. bspline_basis (ravel X ! k) (degree self) kn = Inr r \<and>
                       int (length r) = nb \<and>
                       rows M ! k = (if include_bias self then r else tl r))"
proof -
  obtain kn where kn: "knots_fitted self = Some kn"
    and nb: "n_bases_fitted self = Some (int (length kn) - degree self0 - 1)"
    and l2: "2 * (degree self0 + 1) \<le> int (length kn)"
    and dg: "degree self = degree self0"
    using fit_Inr_facts [OF assms(1,2)] by blast
  let ?nb = "int (length kn) - degree self - 1"
  have deg: "0 \<le> degree self" using assms(2) dg by simp
  have len: "degree self + 2 \<le> int (length kn)" using l2 dg deg by simp
  have nb1: "1 \<le> ?nb" using len by simp
  let ?B = "\<lparr>nrows = m, ncols = nat ?nb, rows = replicate m (replicate (nat ?nb) 0)\<rparr>"
  have z: "np_zeros2 m ?nb = Inr ?B" using nb1 by (simp add: np_zeros2_def)
  have p1: "\<forall>i \<in> set [0..<m]. i < length (ravel X) \<and> i < nrows ?B" using assms(3) by simp
  have p2: "length (rows ?B) = nrows ?B" by simp
  have p3: "int (ncols ?B) = int (length kn) - degree self - 1" using nb1 by simp
  obtain B' where B': "fill_rows self (ravel X) [0..<m] ?B = Inr B'" "nrows B' = m"
    "ncols B' = nat ?nb" "length (rows B') = m"
    and rw: "\<forall>k<nrows ?B. (k \<in> set [0..<m] \<longrightarrow>
                 bspline_basis (ravel X ! k) (degree self) kn = Inr (rows B' ! k)) \<and>
               (k \<notin> set [0..<m] \<longrightarrow> rows B' ! k = rows ?B ! k)"
    using fill_rows_pure [OF kn deg len p1 p2 p3] by auto
  have rows: "bspline_basis (ravel X ! k) (degree self) kn = Inr (rows B' ! k)" if "k < m" for k
    using rw that by simp
  let ?M = "if \<not> include_bias self then drop_first_column B' else B'"
  have t: "transform self X = Inr ?M"
    using assms(3) nb dg z B'(1)
    by (simp add: transform_def Let_def ravel_ensure_2d try_bind_def)
  have c1: "nrows ?M = m" using B'(2) by (simp add: drop_first_column_def)
  have c2: "length (rows ?M) = m" using B'(4) by (simp add: drop_first_column_def)
  have c3: "int (ncols ?M) = (if include_bias self then ?nb else ?nb - 1)"
    using B'(3) nb1 by (simp add: drop_first_column_def)
  have c4: "\<forall>k<m. \<exists>r. bspline_basis (ravel X ! k) (degree self) kn = Inr r \<and>
                       int (length r) = ?nb \<and>
                       rows ?M ! k = (if include_bias self then r else tl r)"
  proof (intro allI impI)
    fix k assume k: "k < m"
    have 1: "bspline_basis (ravel X ! k) (degree self) kn = Inr (rows B' ! k)" using rows [OF k] .
    have 2: "int (length (rows B' ! k)) = ?nb" using bspline_basis_length [OF deg 1] .
    have 3: "rows ?M ! k = (if include_bias self then rows B' ! k else tl (rows B' ! k))"
      using k B'(4) by (simp add: drop_first_column_def)
    show "\<exists>r. bspline_basis (ravel X ! k) (degree self) kn = Inr r \<and>
               int (length r) = ?nb \<and>
               rows ?M ! k = (if include_bias self then r else tl r)"
      using 1 2 3 by blast
  qed
  have nb': "n_bases_fitted self = Some ?nb" using nb dg by simp
  show ?thesis
    by (intro exI [of _ ?M] exI [of _ ?nb] exI [of _ kn] conjI nb' kn t c1 c2 c3 c4)
qed

theorem transform_shape_and_rows_witness:
  "fit (init 1 2 None False) \<lparr>shape = [4], ravel = [0, 3, 1, 10]\<rparr>
     = Inr ((init 1 2 None False)
             \<lparr>knots_fitted := Some [- (1 / 10 ^ 9), - (1 / 10 ^ 9), 1, 3,
                                    10 + (1 / 10 ^ 10) * (10 + 1 / 10 ^ 9),
                                    10 + (1 / 10 ^ 10) * (10 + 1 / 10 ^ 9)],
              n_bases_fitted := Some 4\<rparr>) \<and>
   0 \<le> degree (init 1 2 None False) \<and>
   length (ravel \<lparr>shape = [3], ravel = [0, 5, 10]\<rparr>) = 3 \<and>
   (\<exists>M. transform ((init 1 2 None False)
             \<lparr>knots_fitted := Some [- (1 / 10 ^ 9), - (1 / 10 ^ 9), 1, 3,
                                    10 + (1 / 10 ^ 10) * (10 + 1 / 10 ^ 9),
                                    10 + (1 / 10 ^ 10) * (10 + 1 / 10 ^ 9)],
              n_bases_fitted := Some 4\<rparr>) \<lparr>shape = [3], ravel = [0, 5, 10]\<rparr> = Inr M \<and>
        nrows M = 3 \<and> ncols M = 3 \<and> length (rows M) = 3)"
proof -
  let ?fresh = "init 1 2 None False"
  let ?self = "?fresh\<lparr>knots_fitted := Some [- (1 / 10 ^ 9), - (1 / 10 ^ 9), 1, 3,
                                    10 + (1 / 10 ^ 10) * (10 + 1 / 10 ^ 9),
                                    10 + (1 / 10 ^ 10) * (10 + 1 / 10 ^ 9)],
              n_bases_fitted := Some 4\<rparr>"
  let ?train = "\<lparr>shape = [4], ravel = [0, 3, 1, 10]\<rparr>"
  have h1: "fit ?fresh ?train = Inr ?self" by code_simp
  let ?X = "\<lparr>shape = [3], ravel = [0, 5, 10]\<rparr>"
  have h2: "0 \<le> degree ?fresh" by (simp add: init_def)
  have h3: "length (ravel ?X) = 3" by simp
  have ib: "include_bias ?self = False" "n_bases_fitted ?self = Some 4" by (simp_all add: init_def)
  have "\<exists>M. transform ?self ?X = Inr M \<and> nrows M = 3 \<and> ncols M = 3 \<and> length (rows M) = 3"
    using transform_shape_and_rows [OF h1 h2 h3] unfolding ib
    by (elim exE conjE) auto
  then show ?thesis using h1 h2 h3 by (intro conjI)
qed

end
